theory Spec2Isabelle
  imports Main
begin

section \<open>Data model\<close>

text \<open>
  Python exceptions are values. The constructors are the exception classes the sources
  raise or catch; every one of them derives from \<^verbatim>\<open>Exception\<close>.
  \<open>OSError\<close> stands for an \<^verbatim>\<open>OSError\<close> other than \<^verbatim>\<open>FileNotFoundError\<close> (in Python 3
  \<^verbatim>\<open>IOError\<close> is the same class), \<open>NetworkError\<close> for \<^verbatim>\<open>telegram.error.NetworkError\<close> and its
  subclasses, \<open>RetryError\<close> for the error the retry decorator raises when it gives up,
  \<open>NotFound\<close> and \<open>AlreadyExists\<close> for the store's errors, and \<open>OtherError\<close> for any other
  exception a collaborator may raise.
\<close>

datatype error =
    AttributeError
  | AssertionError
  | ValueError
  | FileNotFoundError
  | OSError
  | NetworkError
  | RetryError
  | NotFound
  | AlreadyExists
  | OtherError string

text \<open>
  \<^verbatim>\<open>TaskStatus\<close> is declared in the store module, which is not among the sources. The
  fields are the four that \<^verbatim>\<open>Loop.pipeline\<close> reads and writes; \<open>done_flag\<close> is the
  field \<^verbatim>\<open>done\<close>.
\<close>

record TaskStatus =
  done_flag :: bool
  bt_downloaded_path :: "string option"
  finalrip_downloaded_path :: "string option"
  tg_uploaded :: bool

text \<open>
  Modelled from the spec: the value of \<^verbatim>\<open>TaskStatus()\<close>, whose defaults are declared in
  the missing store module. The spec's record of a new task is
  \<^verbatim>\<open>{acquired_path: null, transcoded_path: null, published: false, done: false}\<close>.
\<close>

definition TaskStatus_default :: TaskStatus where
  "TaskStatus_default =
     \<lparr>done_flag = False, bt_downloaded_path = None,
      finalrip_downloaded_path = None, tg_uploaded = False\<rparr>"

text \<open>\<^verbatim>\<open>rss/type.py\<close>: the discovered item. Dates and URLs are kept as text.\<close>

record TorrentInfo =
  name :: string
  episode :: int
  title :: string
  link :: string
  hash :: string
  pub_date :: string
  size_str :: string

text \<open>\<^verbatim>\<open>loop.py\<close>: \<^verbatim>\<open>class TaskInfo(TorrentInfo)\<close> adds three fields.\<close>

record TaskInfo = TorrentInfo +
  uploader :: string
  script :: string
  param :: string

text \<open>
  The fields of \<^verbatim>\<open>NyaaConfig\<close> and \<^verbatim>\<open>RSSConfig\<close> that \<^verbatim>\<open>loop.py\<close> reads (the classes are
  declared in the missing config module). The \<open>cfg_\<close> prefix keeps the three fields of
  \<^verbatim>\<open>NyaaConfig\<close> apart from those of \<^verbatim>\<open>TaskInfo\<close>. The two dictionaries are maps.
\<close>

record NyaaConfig =
  cfg_name :: string
  cfg_uploader :: string
  cfg_script :: string
  cfg_param :: string

record RSSConfig =
  scripts :: "string \<rightharpoonup> string"
  params :: "string \<rightharpoonup> string"
  nyaa :: "NyaaConfig list"

record TGChannelSender =
  channel_id :: string

text \<open>The part of \<^verbatim>\<open>Loop\<close> the pipeline reads: the sender is \<^verbatim>\<open>None\<close> when Telegram is disabled.\<close>

record Loop =
  tg_channel_sender :: "TGChannelSender option"

section \<open>Paths and text\<close>

text \<open>
  \<^verbatim>\<open>pathlib\<close> on POSIX paths written without a trailing or doubled separator:
  \<^verbatim>\<open>.name\<close>, \<^verbatim>\<open>.parent\<close>, \<^verbatim>\<open>/\<close> and \<^verbatim>\<open>.suffix\<close>.
\<close>

definition path_name :: "string \<Rightarrow> string" where
  "path_name p = rev (takeWhile (\<lambda>c. c \<noteq> CHR ''/'') (rev p))"

definition path_parent :: "string \<Rightarrow> string" where
  "path_parent p =
     (let d = rev (dropWhile (\<lambda>c. c \<noteq> CHR ''/'') (rev p))
      in if d = [] then ''.'' else if d = ''/'' then ''/'' else butlast d)"

definition path_div :: "string \<Rightarrow> string \<Rightarrow> string" where
  "path_div a b =
     (if b \<noteq> [] \<and> hd b = CHR ''/'' then b
      else if a = ''.'' then b
      else if a \<noteq> [] \<and> last a = CHR ''/'' then a @ b
      else a @ ''/'' @ b)"

definition path_suffix :: "string \<Rightarrow> string" where
  "path_suffix p =
     (let nm = path_name p; ext = rev (takeWhile (\<lambda>c. c \<noteq> CHR ''.'') (rev nm))
      in if CHR ''.'' \<notin> set nm \<or> ext = [] \<or> length ext + 1 = length nm then []
         else CHR ''.'' # ext)"

text \<open>\<^verbatim>\<open>str\<close> of an integer, as an f-string renders it.\<close>

definition digit_char :: "nat \<Rightarrow> char" where
  "digit_char d = char_of (48 + d)"

fun str_nat :: "nat \<Rightarrow> string" where
  "str_nat n = (if n < 10 then [digit_char n] else str_nat (n div 10) @ [digit_char (n mod 10)])"

declare str_nat.simps [simp del]

definition str_int :: "int \<Rightarrow> string" where
  "str_int i = (if i < 0 then CHR ''-'' # str_nat (nat (- i)) else str_nat (nat i))"

text \<open>
  Attribute access on a \<^verbatim>\<open>TaskInfo\<close>. A pydantic model has the declared fields of its
  class and of its base classes; reading any other field name raises
  \<^verbatim>\<open>AttributeError\<close>.
\<close>

datatype pyval = PyStr string | PyInt int

definition py_str :: "pyval \<Rightarrow> string" where
  "py_str v = (case v of PyStr s \<Rightarrow> s | PyInt i \<Rightarrow> str_int i)"

definition TaskInfo_getattr :: "TaskInfo \<Rightarrow> string \<Rightarrow> error + pyval" where
  "TaskInfo_getattr t a =
     (if a = ''name'' then Inr (PyStr (name t))
      else if a = ''episode'' then Inr (PyInt (episode t))
      else if a = ''title'' then Inr (PyStr (title t))
      else if a = ''link'' then Inr (PyStr (link t))
      else if a = ''hash'' then Inr (PyStr (hash t))
      else if a = ''pub_date'' then Inr (PyStr (pub_date t))
      else if a = ''size'' then Inr (PyStr (size_str t))
      else if a = ''uploader'' then Inr (PyStr (uploader t))
      else if a = ''script'' then Inr (PyStr (script t))
      else if a = ''param'' then Inr (PyStr (param t))
      else Inl AttributeError)"

section \<open>The world: the store, and the calls made to collaborators\<close>

text \<open>
  Every operation on a collaborator (the download service, the transcode service, the
  Telegram bot, the file system, the clock) is recorded as a \<open>call\<close>. The constructors
  carry the arguments the source passes.
\<close>

datatype call =
    QB_check_torrent_exist string
  | QB_add_torrent string string
  | QB_check_download_complete string
  | QB_get_downloaded_path string
  | FR_check_task_exist string
  | FR_get_oss_presigned_url string
  | HTTP_put string string string
  | FR_new_task string
  | FR_start_task string string string
  | FR_check_task_completed string
  | FR_download_completed_task string string
  | MI_gen_file_name string int string string
  | Path_rename string string
  | FS_exists string
  | FS_open string
  | Bot_send_video string string string
  | Sleep nat
  | Sleep_random nat nat

definition is_acquisition_call :: "call \<Rightarrow> bool" where
  "is_acquisition_call c =
     (case c of QB_check_torrent_exist _ \<Rightarrow> True | QB_add_torrent _ _ \<Rightarrow> True
      | QB_check_download_complete _ \<Rightarrow> True | QB_get_downloaded_path _ \<Rightarrow> True
      | _ \<Rightarrow> False)"

definition is_transcode_call :: "call \<Rightarrow> bool" where
  "is_transcode_call c =
     (case c of FR_check_task_exist _ \<Rightarrow> True | FR_get_oss_presigned_url _ \<Rightarrow> True
      | HTTP_put _ _ _ \<Rightarrow> True | FR_new_task _ \<Rightarrow> True | FR_start_task _ _ _ \<Rightarrow> True
      | FR_check_task_completed _ \<Rightarrow> True | FR_download_completed_task _ _ \<Rightarrow> True
      | _ \<Rightarrow> False)"

definition is_publish_call :: "call \<Rightarrow> bool" where
  "is_publish_call c = (case c of Bot_send_video _ _ _ \<Rightarrow> True | _ \<Rightarrow> False)"

definition is_network_call :: "call \<Rightarrow> bool" where
  "is_network_call c = (is_acquisition_call c \<or> is_transcode_call c \<or> is_publish_call c)"

text \<open>
  The world a task routine runs in: the status store (a map from task identity to
  status), the calls made so far, and the records written to the store so far, oldest
  first.
\<close>

record world =
  store :: "string \<rightharpoonup> TaskStatus"
  calls :: "call list"
  writes :: "(string \<times> TaskStatus) list"

definition init_world :: world where
  "init_world = \<lparr>store = Map.empty, calls = [], writes = []\<rparr>"

text \<open>
  The collaborators are not part of the program: what a call answers is a parameter.
  The answer may depend on every call made so far (the history ends with the call being
  answered): \<open>raises\<close> says whether the call raises, \<open>truth\<close> is the answer of a call
  that returns a boolean, \<open>answer\<close> the answer of a call that returns text.
  \<open>guess_type\<close> is \<^verbatim>\<open>mimetypes.guess_type(path)[0]\<close>.
\<close>

record env =
  raises :: "call list \<Rightarrow> error option"
  truth :: "call list \<Rightarrow> bool"
  answer :: "call list \<Rightarrow> string"
  guess_type :: "string \<Rightarrow> string option"

text \<open>
  A routine returns a value, raises, or is still polling when the polling budget of the
  model is used up (\<open>Pending\<close>). The world is returned in every case: an exception does
  not undo what was done before it.
\<close>

datatype 'a outcome = Returned 'a | Raised error | Pending

type_synonym 'a run = "world \<Rightarrow> 'a outcome \<times> world"

definition ret :: "'a \<Rightarrow> 'a run" where
  "ret a = (\<lambda>s. (Returned a, s))"

definition raise_error :: "error \<Rightarrow> 'a run" where
  "raise_error e = (\<lambda>s. (Raised e, s))"

definition bind_run :: "'a run \<Rightarrow> ('a \<Rightarrow> 'b run) \<Rightarrow> 'b run" where
  "bind_run m f =
     (\<lambda>s. case m s of
            (Returned a, s') \<Rightarrow> f a s'
          | (Raised e, s') \<Rightarrow> (Raised e, s')
          | (Pending, s') \<Rightarrow> (Pending, s'))"

text \<open>A call that may raise; it returns the history its answer is read from.\<close>

definition perform :: "env \<Rightarrow> call \<Rightarrow> (call list) run" where
  "perform ev c =
     (\<lambda>s. let h = calls s @ [c]; s' = s\<lparr>calls := h\<rparr>
          in case raises ev h of Some e \<Rightarrow> (Raised e, s') | None \<Rightarrow> (Returned h, s'))"

definition ask :: "env \<Rightarrow> call \<Rightarrow> bool run" where
  "ask ev c = bind_run (perform ev c) (\<lambda>h. ret (truth ev h))"

definition fetch :: "env \<Rightarrow> call \<Rightarrow> string run" where
  "fetch ev c = bind_run (perform ev c) (\<lambda>h. ret (answer ev h))"

text \<open>
  \<^verbatim>\<open>Path.exists()\<close> answers whether the path is there. It returns false for the errors
  that mean the path is not there, and re-raises every other \<^verbatim>\<open>OSError\<close> (a name that is
  too long, a directory that may not be searched), so it is a call that may raise.
\<close>

definition path_exists :: "env \<Rightarrow> string \<Rightarrow> bool run" where
  "path_exists ev p = ask ev (FS_exists p)"

text \<open>The sleeps do not raise.\<close>

definition sleep :: "call \<Rightarrow> unit run" where
  "sleep c = (\<lambda>s. (Returned (), s\<lparr>calls := calls s @ [c]\<rparr>))"

section \<open>The task status store\<close>

text \<open>
  The store module (\<^verbatim>\<open>AsyncJsonStore\<close>) is not among the sources; section 4.1 of the spec
  gives its contract. The four operations carry the names \<^verbatim>\<open>Loop.pipeline\<close> calls them
  by. The status a caller holds is a copy of the stored record.
\<close>

text \<open>Modelled from the spec: \<^verbatim>\<open>exists(id) -> bool\<close> of the missing store module.\<close>

definition check_task_exist :: "string \<Rightarrow> bool run" where
  "check_task_exist k = (\<lambda>s. (Returned (store s k \<noteq> None), s))"

text \<open>
  Modelled from the spec: \<^verbatim>\<open>create(id, status)\<close> of the missing store module, which
  fails with \<^verbatim>\<open>AlreadyExists\<close> if the key is present and otherwise persists the status.
\<close>

definition add_task :: "string \<Rightarrow> TaskStatus \<Rightarrow> unit run" where
  "add_task k st =
     (\<lambda>s. if store s k \<noteq> None then (Raised AlreadyExists, s)
          else (Returned (), s\<lparr>store := (store s)(k \<mapsto> st), writes := writes s @ [(k, st)]\<rparr>))"

text \<open>
  Modelled from the spec: \<^verbatim>\<open>get(id) -> Status\<close> of the missing store module, which fails
  with \<^verbatim>\<open>NotFound\<close> if the key is absent.
\<close>

definition get_task :: "string \<Rightarrow> TaskStatus run" where
  "get_task k = (\<lambda>s. case store s k of None \<Rightarrow> (Raised NotFound, s) | Some st \<Rightarrow> (Returned st, s))"

text \<open>
  Modelled from the spec: \<^verbatim>\<open>update(id, status)\<close> of the missing store module, which
  replaces the full record and fails with \<^verbatim>\<open>NotFound\<close> if the key is absent.
\<close>

definition update_task :: "string \<Rightarrow> TaskStatus \<Rightarrow> unit run" where
  "update_task k st =
     (\<lambda>s. if store s k = None then (Raised NotFound, s)
          else (Returned (), s\<lparr>store := (store s)(k \<mapsto> st), writes := writes s @ [(k, st)]\<rparr>))"

section \<open>\<^verbatim>\<open>post/tg.py\<close>: sending a video to the channel\<close>

text \<open>
  One attempt of \<^verbatim>\<open>TGChannelSender.send_video\<close>, the body of the function: the file
  must exist, the caption defaults to the file's name, the file is read, and the bot
  sends it. The \<^verbatim>\<open>try\<close> statement re-raises a network error and catches every other
  exception of the bot's send (it is printed, and the body ends normally). Console
  output is not modelled.
\<close>

definition except_non_network :: "'a run \<Rightarrow> unit run" where
  "except_non_network m =
     (\<lambda>s. case m s of
            (Returned _, s') \<Rightarrow> (Returned (), s')
          | (Raised e, s') \<Rightarrow> if e = NetworkError then (Raised e, s') else (Returned (), s')
          | (Pending, s') \<Rightarrow> (Pending, s'))"

definition send_video_attempt :: "env \<Rightarrow> TGChannelSender \<Rightarrow> string \<Rightarrow> string option \<Rightarrow> unit run" where
  "send_video_attempt ev self video_path caption =
     bind_run (path_exists ev video_path) (\<lambda>ex.
       if \<not> ex then raise_error FileNotFoundError
       else
         let video_name = path_name video_path;
             caption' = (case caption of None \<Rightarrow> video_name | Some c \<Rightarrow> c)
         in bind_run (perform ev (FS_open video_path)) (\<lambda>_.
              except_non_network
                (perform ev (Bot_send_video (channel_id self) video_name caption'))))"

text \<open>
  The decorator \<^verbatim>\<open>@retry(wait=wait_random(min=3, max=5), stop=stop_after_attempt(10))\<close>
  of the tenacity library: an attempt that returns ends the call; an attempt that raises
  (any exception: the decorator names no exception type) is followed by a random wait and
  a new attempt, until the attempt with the number given to \<^verbatim>\<open>stop_after_attempt\<close> has
  raised, and then the call raises \<^verbatim>\<open>RetryError\<close> (\<^verbatim>\<open>reraise\<close> is not set). The first
  argument counts the attempts that are left.
\<close>

primrec retrying :: "nat \<Rightarrow> 'a run \<Rightarrow> 'a run" where
  "retrying 0 m = raise_error RetryError"
| "retrying (Suc k) m =
     (\<lambda>s. case m s of
            (Returned a, s') \<Rightarrow> (Returned a, s')
          | (Raised e, s') \<Rightarrow>
              if k = 0 then (Raised RetryError, s')
              else bind_run (sleep (Sleep_random 3 5)) (\<lambda>_. retrying k m) s'
          | (Pending, s') \<Rightarrow> (Pending, s'))"

definition send_video :: "env \<Rightarrow> TGChannelSender \<Rightarrow> string \<Rightarrow> string option \<Rightarrow> unit run" where
  "send_video ev self video_path caption =
     retrying 10 (send_video_attempt ev self video_path caption)"

section \<open>\<^verbatim>\<open>encode/finalrip.py\<close>: registering a video with the transcode service\<close>

text \<open>
  \<^verbatim>\<open>FinalRipClient.upload_and_new_task\<close>. \<open>exts\<close> is \<^verbatim>\<open>VIDEO_EXTENSIONS\<close>, a constant of a
  module that is not among the sources. The answer to the presigned-URL request and to
  the task creation carries a \<^verbatim>\<open>success\<close> flag (\<open>truth\<close>) and, for the former, the URL
  (\<open>answer\<close>); the answer to the upload is whether the status code is 200.
\<close>

definition content_type_of :: "env \<Rightarrow> string \<Rightarrow> string" where
  "content_type_of ev p =
     (case guess_type ev p of
        None \<Rightarrow> ''application/octet-stream''
      | Some t \<Rightarrow> if t = [] then ''application/octet-stream'' else t)"

definition upload_and_new_task :: "env \<Rightarrow> string list \<Rightarrow> string \<Rightarrow> unit run" where
  "upload_and_new_task ev exts video_path =
     bind_run (path_exists ev video_path) (\<lambda>ex.
       if \<not> ex then raise_error FileNotFoundError
       else if path_suffix video_path \<notin> set exts then raise_error ValueError
       else
         let video_key = path_name video_path
         in bind_run (perform ev (FR_get_oss_presigned_url video_key)) (\<lambda>h.
              if \<not> truth ev h then raise_error ValueError
              else
                bind_run (perform ev (FS_open video_path)) (\<lambda>_.
                bind_run (ask ev (HTTP_put (answer ev h) video_path (content_type_of ev video_path))) (\<lambda>ok.
                  if \<not> ok then raise_error OSError
                  else
                    bind_run (ask ev (FR_new_task video_key)) (\<lambda>success.
                      if \<not> success then raise_error ValueError else ret ())))))"

section \<open>\<^verbatim>\<open>loop.py\<close>: the pipeline of one task\<close>

text \<open>
  The four polling loops. Each \<^verbatim>\<open>while\<close> loop may run forever, so each takes a budget
  of iterations and is \<open>Pending\<close> when the budget is used up.
\<close>

primrec wait_torrent_exist :: "nat \<Rightarrow> env \<Rightarrow> TaskInfo \<Rightarrow> unit run" where
  "wait_torrent_exist 0 ev task_info = (\<lambda>s. (Pending, s))"
| "wait_torrent_exist (Suc n) ev task_info =
     bind_run (ask ev (QB_check_torrent_exist (hash task_info))) (\<lambda>b.
       if b then ret ()
       else
         bind_run (perform ev (QB_add_torrent (hash task_info) (link task_info))) (\<lambda>_.
         bind_run (sleep (Sleep 10)) (\<lambda>_.
           wait_torrent_exist n ev task_info)))"

primrec wait_download_complete :: "nat \<Rightarrow> env \<Rightarrow> TaskInfo \<Rightarrow> unit run" where
  "wait_download_complete 0 ev task_info = (\<lambda>s. (Pending, s))"
| "wait_download_complete (Suc n) ev task_info =
     bind_run (ask ev (QB_check_download_complete (hash task_info))) (\<lambda>b.
       if b then ret ()
       else bind_run (sleep (Sleep 10)) (\<lambda>_. wait_download_complete n ev task_info))"

primrec wait_task_exist :: "nat \<Rightarrow> env \<Rightarrow> string list \<Rightarrow> string \<Rightarrow> unit run" where
  "wait_task_exist 0 ev exts bt_path = (\<lambda>s. (Pending, s))"
| "wait_task_exist (Suc n) ev exts bt_path =
     bind_run (ask ev (FR_check_task_exist (path_name bt_path))) (\<lambda>b.
       if b then ret ()
       else
         bind_run (upload_and_new_task ev exts bt_path) (\<lambda>_.
         bind_run (sleep (Sleep 10)) (\<lambda>_.
           wait_task_exist n ev exts bt_path)))"

primrec wait_task_completed :: "nat \<Rightarrow> env \<Rightarrow> string \<Rightarrow> unit run" where
  "wait_task_completed 0 ev video_key = (\<lambda>s. (Pending, s))"
| "wait_task_completed (Suc n) ev video_key =
     bind_run (ask ev (FR_check_task_completed video_key)) (\<lambda>b.
       if b then ret ()
       else bind_run (sleep (Sleep 10)) (\<lambda>_. wait_task_completed n ev video_key))"

text \<open>
  The pattern that ends each stage: the status, with the stage's field set, is written
  to the store (\<^verbatim>\<open>task_status.field = ...; await self.json_store.update_task(...)\<close>),
  and the rest of the pipeline goes on with that status.
\<close>

definition checkpoint :: "string \<Rightarrow> TaskStatus \<Rightarrow> TaskStatus run" where
  "checkpoint k task_status = bind_run (update_task k task_status) (\<lambda>_. ret task_status)"

text \<open>Lines 113 to 122: the work of the acquisition stage; it returns the downloaded path.\<close>

definition download_torrent :: "nat \<Rightarrow> env \<Rightarrow> TaskInfo \<Rightarrow> string run" where
  "download_torrent n ev task_info =
     bind_run (wait_torrent_exist n ev task_info) (\<lambda>_.
     bind_run (wait_download_complete n ev task_info) (\<lambda>_.
       fetch ev (QB_get_downloaded_path (hash task_info))))"

text \<open>
  Lines 110 to 126: the acquisition stage. It returns the status as the rest of the
  pipeline sees it.
\<close>

definition acquire_stage :: "nat \<Rightarrow> env \<Rightarrow> TaskInfo \<Rightarrow> TaskStatus \<Rightarrow> TaskStatus run" where
  "acquire_stage n ev task_info task_status =
     (if bt_downloaded_path task_status = None then
        bind_run (download_torrent n ev task_info) (\<lambda>p.
          checkpoint (hash task_info) (task_status\<lparr>bt_downloaded_path := Some p\<rparr>))
      else ret task_status)"

text \<open>
  Lines 135 to 170: the work of the transcode stage, for the acquired path \<open>bt_path\<close> the
  assertion of line 128 has found in the status; it returns the path of the renamed
  result. The \<^verbatim>\<open>try\<close> statements of lines 138 and 145 log and re-raise, so they change
  nothing. \<^verbatim>\<open>gen_file_name\<close> (of the missing media-info module) and the remaining methods
  of the two service clients are calls.
\<close>

definition encode_video :: "nat \<Rightarrow> env \<Rightarrow> string list \<Rightarrow> TaskInfo \<Rightarrow> string \<Rightarrow> string run" where
  "encode_video n ev exts task_info bt_path =
     bind_run (wait_task_exist n ev exts bt_path) (\<lambda>_.
     bind_run (perform ev (FR_start_task (path_name bt_path) (param task_info) (script task_info))) (\<lambda>_.
     bind_run (wait_task_completed n ev (path_name bt_path)) (\<lambda>_.
       let temp_saved_path = path_div (path_parent bt_path) (path_name bt_path @ ''-encoded.mkv'')
       in bind_run (perform ev (FR_download_completed_task (path_name bt_path) temp_saved_path)) (\<lambda>_.
          bind_run (fetch ev (MI_gen_file_name temp_saved_path (episode task_info)
                                (name task_info) (uploader task_info))) (\<lambda>gen_name.
            let finalrip_path = path_div (path_parent bt_path) gen_name
            in bind_run (perform ev (Path_rename temp_saved_path finalrip_path)) (\<lambda>_.
                 ret finalrip_path))))))"

text \<open>Lines 131 to 174: the transcode stage.\<close>

definition transcode_stage ::
    "nat \<Rightarrow> env \<Rightarrow> string list \<Rightarrow> TaskInfo \<Rightarrow> TaskStatus \<Rightarrow> string \<Rightarrow> TaskStatus run" where
  "transcode_stage n ev exts task_info task_status bt_path =
     (if finalrip_downloaded_path task_status = None then
        bind_run (encode_video n ev exts task_info bt_path) (\<lambda>finalrip_path.
          checkpoint (hash task_info) (task_status\<lparr>finalrip_downloaded_path := Some finalrip_path\<rparr>))
      else ret task_status)"

text \<open>
  Line 187: the caption, an f-string. Its first field reads \<^verbatim>\<open>task_info.translation\<close>.
\<close>

definition caption_of :: "TaskInfo \<Rightarrow> string \<Rightarrow> string run" where
  "caption_of task_info finalrip_path =
     (case TaskInfo_getattr task_info ''translation'' of
        Inl e \<Rightarrow> raise_error e
      | Inr v \<Rightarrow>
          ret (py_str v @ '' | EP '' @ str_int (episode task_info) @ '' | '' @ path_name finalrip_path))"

text \<open>
  Lines 185 to 191, once the caption is evaluated: the video is sent, and when the call
  returns the status is marked as uploaded and written to the store.
\<close>

definition send_and_mark ::
    "env \<Rightarrow> TGChannelSender \<Rightarrow> TaskInfo \<Rightarrow> TaskStatus \<Rightarrow> string \<Rightarrow> string \<Rightarrow> TaskStatus run" where
  "send_and_mark ev sender task_info task_status finalrip_path caption =
     bind_run (send_video ev sender finalrip_path (Some caption)) (\<lambda>_.
       checkpoint (hash task_info) (task_status\<lparr>tg_uploaded := True\<rparr>))"

text \<open>
  Lines 179 to 191: the publish stage, for the transcoded path \<open>finalrip_path\<close> the
  assertion of line 176 has found in the status.
\<close>

definition publish_stage :: "env \<Rightarrow> Loop \<Rightarrow> TaskInfo \<Rightarrow> TaskStatus \<Rightarrow> string \<Rightarrow> TaskStatus run" where
  "publish_stage ev self task_info task_status finalrip_path =
     (if \<not> tg_uploaded task_status then
        (case tg_channel_sender self of
           None \<Rightarrow> ret task_status
         | Some sender \<Rightarrow>
             bind_run (caption_of task_info finalrip_path) (\<lambda>caption.
               send_and_mark ev sender task_info task_status finalrip_path caption))
      else ret task_status)"

text \<open>
  Lines 107 to 198 of \<^verbatim>\<open>Loop.pipeline\<close>: the stages in order, for the status that was
  loaded, and the final write of \<^verbatim>\<open>done\<close>. The three \<^verbatim>\<open>assert\<close> statements (lines 128, 176
  and 193) are executed (Python run without \<^verbatim>\<open>-O\<close>) and raise \<^verbatim>\<open>AssertionError\<close> when
  they fail. Logging is not modelled.
\<close>

definition run_stages :: "nat \<Rightarrow> env \<Rightarrow> string list \<Rightarrow> Loop \<Rightarrow> TaskInfo \<Rightarrow> TaskStatus \<Rightarrow> unit run" where
  "run_stages n ev exts self task_info task_status =
     bind_run (acquire_stage n ev task_info task_status) (\<lambda>task_status.
       case bt_downloaded_path task_status of
         None \<Rightarrow> raise_error AssertionError
       | Some bt_path \<Rightarrow>
           bind_run (transcode_stage n ev exts task_info task_status bt_path) (\<lambda>task_status.
             case finalrip_downloaded_path task_status of
               None \<Rightarrow> raise_error AssertionError
             | Some finalrip_path \<Rightarrow>
                 bind_run (publish_stage ev self task_info task_status finalrip_path) (\<lambda>task_status.
                   if \<not> tg_uploaded task_status then raise_error AssertionError
                   else update_task (hash task_info) (task_status\<lparr>done_flag := True\<rparr>))))"

text \<open>
  \<^verbatim>\<open>Loop.pipeline\<close>: lines 99 to 105 create the status of a task that has none, load the
  status and return at once when it is done; the stages follow.
\<close>

definition pipeline :: "nat \<Rightarrow> env \<Rightarrow> string list \<Rightarrow> Loop \<Rightarrow> TaskInfo \<Rightarrow> unit run" where
  "pipeline n ev exts self task_info =
     bind_run (check_task_exist (hash task_info)) (\<lambda>known.
     bind_run (if \<not> known then add_task (hash task_info) TaskStatus_default else ret ()) (\<lambda>_.
     bind_run (get_task (hash task_info)) (\<lambda>task_status.
       if done_flag task_status then ret ()
       else run_stages n ev exts self task_info task_status)))"

section \<open>\<^verbatim>\<open>loop.py\<close>: the discovery cycle\<close>

text \<open>
  \<^verbatim>\<open>build_task_info\<close>. A dictionary lookup that follows a membership test is one case
  distinction on the map. The messages of the errors are left out.
\<close>

definition build_task_info :: "TorrentInfo \<Rightarrow> NyaaConfig \<Rightarrow> RSSConfig \<Rightarrow> error + TaskInfo" where
  "build_task_info torrent_info nyaa_config rss_config =
     (case scripts rss_config (cfg_script nyaa_config) of
        None \<Rightarrow> Inl ValueError
      | Some script' \<Rightarrow>
          (case params rss_config (cfg_param nyaa_config) of
             None \<Rightarrow> Inl ValueError
           | Some param' \<Rightarrow>
               Inr \<lparr>name = name torrent_info, episode = episode torrent_info,
                    title = title torrent_info, link = link torrent_info,
                    hash = hash torrent_info, pub_date = pub_date torrent_info,
                    size_str = size_str torrent_info,
                    uploader = cfg_uploader nyaa_config, script = script', param = param'\<rparr>))"

text \<open>
  What one pass of the \<^verbatim>\<open>while\<close> loop of \<^verbatim>\<open>Loop.start\<close> meets: whether the stop event is
  set when the loop tests it, the configuration as \<^verbatim>\<open>refresh_config\<close> leaves it, and what
  \<^verbatim>\<open>parse_nyaa\<close> returns for each feed (the feed parser is not among the sources).
\<close>

record tick =
  stop_is_set :: bool
  refreshed :: RSSConfig
  parse_nyaa :: "NyaaConfig \<Rightarrow> TorrentInfo list"

text \<open>
  The driver's effect is the sequence of submissions to the task executor:
  \<^verbatim>\<open>submit_task(torrent_info.hash, self.pipeline, task_info)\<close>, oldest first.
\<close>

type_synonym submissions = "(string \<times> TaskInfo) list"

text \<open>Lines 90 to 93: the inner loop, over the items of one feed.\<close>

fun submit_items :: "RSSConfig \<Rightarrow> NyaaConfig \<Rightarrow> TorrentInfo list \<Rightarrow> submissions \<Rightarrow> (error + unit) \<times> submissions" where
  "submit_items rss cfg [] sub = (Inr (), sub)"
| "submit_items rss cfg (torrent_info # rest) sub =
     (case build_task_info torrent_info cfg rss of
        Inl e \<Rightarrow> (Inl e, sub)
      | Inr task_info \<Rightarrow> submit_items rss cfg rest (sub @ [(hash torrent_info, task_info)]))"

text \<open>Lines 87 to 93: the outer loop, over the feeds of the configuration.\<close>

fun scan_feeds :: "tick \<Rightarrow> NyaaConfig list \<Rightarrow> submissions \<Rightarrow> (error + unit) \<times> submissions" where
  "scan_feeds t [] sub = (Inr (), sub)"
| "scan_feeds t (cfg # cfgs) sub =
     (case submit_items (refreshed t) cfg (parse_nyaa t cfg) sub of
        (Inl e, sub') \<Rightarrow> (Inl e, sub')
      | (Inr _, sub') \<Rightarrow> scan_feeds t cfgs sub')"

text \<open>
  \<^verbatim>\<open>Loop.start\<close>, over the passes the loop meets. The loop has no \<^verbatim>\<open>try\<close> statement. It
  may run forever: when every pass of the list has been made and the stop event was
  never set, the driver is still running (\<open>Pending\<close>). The sleep that ends a pass (line
  95) submits nothing and is left out.
\<close>

fun start :: "tick list \<Rightarrow> submissions \<Rightarrow> unit outcome \<times> submissions" where
  "start [] sub = (Pending, sub)"
| "start (t # ts) sub =
     (if stop_is_set t then (Returned (), sub)
      else
        (case scan_feeds t (nyaa (refreshed t)) sub of
           (Inl e, sub') \<Rightarrow> (Raised e, sub')
         | (Inr _, sub') \<Rightarrow> start ts sub'))"

section \<open>The task executor\<close>

text \<open>
  The task executor (\<^verbatim>\<open>AsyncTaskExecutor\<close>, module \<^verbatim>\<open>animepipeline.pool\<close>) is not among the
  sources; section 4.2 of the spec gives its contract. The executor's state is the list
  of the executions that are running, each with its identity.
\<close>

type_synonym 'w executor = "(string \<times> 'w) list"

text \<open>Modelled from the spec: the executions that are running for an identity.\<close>

definition running :: "'w executor \<Rightarrow> string \<Rightarrow> 'w list" where
  "running ex k = map snd (filter (\<lambda>(k', _). k' = k) ex)"

text \<open>
  Modelled from the spec: \<^verbatim>\<open>submit(id, work)\<close> of the missing executor, which starts
  \<^verbatim>\<open>work\<close> if no execution for \<^verbatim>\<open>id\<close> is running, and is a no-op (the submission is
  dropped, not queued) if one is.
\<close>

definition submit :: "string \<Rightarrow> 'w \<Rightarrow> 'w executor \<Rightarrow> 'w executor" where
  "submit k work ex = (if running ex k \<noteq> [] then ex else ex @ [(k, work)])"

text \<open>
  Modelled from the spec: the end of an execution of the missing executor. An execution
  that finishes, successfully or not, is no longer running, and the executor accepts
  submissions for its identity again.
\<close>

definition finish :: "string \<Rightarrow> 'w executor \<Rightarrow> 'w executor" where
  "finish k ex = filter (\<lambda>(k', _). k' \<noteq> k) ex"

text \<open>
  Modelled from the spec: what happens to the missing executor over time, a sequence of
  submissions and of executions finishing, in any order.
\<close>

datatype 'w executor_event = Submit string 'w | Finish string

fun executor_run :: "'w executor_event list \<Rightarrow> 'w executor \<Rightarrow> 'w executor" where
  "executor_run [] ex = ex"
| "executor_run (Submit k work # evs) ex = executor_run evs (submit k work ex)"
| "executor_run (Finish k # evs) ex = executor_run evs (finish k ex)"

section \<open>Notions used in the statements\<close>

text \<open>
  The checkpoint order of a status record: \<^verbatim>\<open>done\<close> implies \<^verbatim>\<open>tg_uploaded\<close> (or publishing is
  disabled), \<^verbatim>\<open>tg_uploaded\<close> implies that the transcoded path is set, and a transcoded path
  implies an acquired path.
\<close>

definition checkpoint_order :: "bool \<Rightarrow> TaskStatus \<Rightarrow> bool" where
  "checkpoint_order publishing_enabled st =
     ((done_flag st \<longrightarrow> tg_uploaded st \<or> \<not> publishing_enabled)
      \<and> (tg_uploaded st \<longrightarrow> finalrip_downloaded_path st \<noteq> None)
      \<and> (finalrip_downloaded_path st \<noteq> None \<longrightarrow> bt_downloaded_path st \<noteq> None))"

text \<open>The records and the calls a run has added to those of the world it started from.\<close>

definition new_writes :: "world \<Rightarrow> world \<Rightarrow> (string \<times> TaskStatus) list" where
  "new_writes s s' = drop (length (writes s)) (writes s')"

definition new_calls :: "world \<Rightarrow> world \<Rightarrow> call list" where
  "new_calls s s' = drop (length (calls s)) (calls s')"




text \<open>
  The items one pass of the driver discovers, in the order the two loops of lines 87 and
  90 visit them, each with the feed it belongs to; whether an item builds; and the two
  loops run over that single list.
\<close>

definition tick_items :: "tick \<Rightarrow> (NyaaConfig \<times> TorrentInfo) list" where
  "tick_items t = concat (map (\<lambda>cfg. map (Pair cfg) (parse_nyaa t cfg)) (nyaa (refreshed t)))"

definition builds :: "RSSConfig \<Rightarrow> NyaaConfig \<times> TorrentInfo \<Rightarrow> bool" where
  "builds rss x = (case build_task_info (snd x) (fst x) rss of Inl _ \<Rightarrow> False | Inr _ \<Rightarrow> True)"

fun submit_flat ::
    "RSSConfig \<Rightarrow> (NyaaConfig \<times> TorrentInfo) list \<Rightarrow> submissions \<Rightarrow> (error + unit) \<times> submissions" where
  "submit_flat rss [] sub = (Inr (), sub)"
| "submit_flat rss (x # rest) sub =
     (case build_task_info (snd x) (fst x) rss of
        Inl e \<Rightarrow> (Inl e, sub)
      | Inr task_info \<Rightarrow> submit_flat rss rest (sub @ [(hash (snd x), task_info)]))"

subsection \<open>Notions used in the proofs\<close>

text \<open>
  \<open>keeps R m\<close>: every run of \<open>m\<close> relates the world it starts in to the world it ends
  in by \<open>R\<close>. \<open>hoare P m Q E\<close>: from a world that satisfies \<open>P\<close>, \<open>m\<close> ends in a world that
  satisfies \<open>Q\<close> (with the value returned) when it returns and \<open>E\<close> when it does not.
  \<open>checkpointed G k s s'\<close>: from \<open>s\<close> to \<open>s'\<close> only records for the key \<open>k\<close> that satisfy
  \<open>G\<close> were written, the record stored under \<open>k\<close> is the last of them (or the one of \<open>s\<close>
  if there is none), and it satisfies \<open>G\<close>.
\<close>

definition keeps :: "(world \<Rightarrow> world \<Rightarrow> bool) \<Rightarrow> 'a run \<Rightarrow> bool" where
  "keeps R m = (\<forall>s r s'. m s = (r, s') \<longrightarrow> R s s')"

definition preorder_rel :: "(world \<Rightarrow> world \<Rightarrow> bool) \<Rightarrow> bool" where
  "preorder_rel R = ((\<forall>s. R s s) \<and> (\<forall>s t u. R s t \<longrightarrow> R t u \<longrightarrow> R s u))"

definition admits :: "(world \<Rightarrow> world \<Rightarrow> bool) \<Rightarrow> call \<Rightarrow> bool" where
  "admits R c = (\<forall>s. R s (s\<lparr>calls := calls s @ [c]\<rparr>))"

definition admits_later_stages :: "(world \<Rightarrow> world \<Rightarrow> bool) \<Rightarrow> bool" where
  "admits_later_stages R = (\<forall>c. \<not> is_acquisition_call c \<longrightarrow> admits R c)"

definition same_store :: "world \<Rightarrow> world \<Rightarrow> bool" where
  "same_store s s' = (store s' = store s \<and> writes s' = writes s)"

definition later_calls :: "world \<Rightarrow> world \<Rightarrow> bool" where
  "later_calls s s' = (\<exists>cs. calls s' = calls s @ cs \<and> list_all (\<lambda>c. \<not> is_acquisition_call c) cs)"

definition first_call :: "call \<Rightarrow> world \<Rightarrow> world \<Rightarrow> bool" where
  "first_call c s s' =
     (\<exists>cs. calls s' = calls s @ c # cs \<and> list_all (\<lambda>c. \<not> is_acquisition_call c) cs)"

definition hoare :: "(world \<Rightarrow> bool) \<Rightarrow> 'a run \<Rightarrow> ('a \<Rightarrow> world \<Rightarrow> bool) \<Rightarrow> (world \<Rightarrow> bool) \<Rightarrow> bool" where
  "hoare P m Q E =
     (\<forall>s r s'. P s \<longrightarrow> m s = (r, s') \<longrightarrow>
        (case r of Returned a \<Rightarrow> Q a s' | Raised e \<Rightarrow> E s' | Pending \<Rightarrow> E s'))"

definition stable :: "(world \<Rightarrow> bool) \<Rightarrow> bool" where
  "stable I = (\<forall>s s'. same_store s s' \<longrightarrow> I s \<longrightarrow> I s')"

definition stage_closed :: "(TaskStatus \<Rightarrow> bool) \<Rightarrow> bool" where
  "stage_closed G =
     ((\<forall>st p. G st \<and> bt_downloaded_path st = None \<longrightarrow> G (st\<lparr>bt_downloaded_path := Some p\<rparr>))
      \<and> (\<forall>st p. G st \<and> bt_downloaded_path st \<noteq> None \<and> finalrip_downloaded_path st = None
            \<longrightarrow> G (st\<lparr>finalrip_downloaded_path := Some p\<rparr>))
      \<and> (\<forall>st. G st \<and> finalrip_downloaded_path st \<noteq> None \<and> \<not> tg_uploaded st
            \<longrightarrow> G (st\<lparr>tg_uploaded := True\<rparr>)))"

definition maintained :: "(world \<Rightarrow> bool) \<Rightarrow> (TaskStatus \<Rightarrow> bool) \<Rightarrow> string \<Rightarrow> bool" where
  "maintained I G k =
     (stable I \<and> stage_closed G \<and> (\<forall>st. G st \<longrightarrow> hoare I (update_task k st) (\<lambda>_. I) I))"


definition store_ordered :: "bool \<Rightarrow> world \<Rightarrow> bool" where
  "store_ordered en s = (\<forall>k st. store s k = Some st \<longrightarrow> checkpoint_order en st)"

definition ordered_since :: "bool \<Rightarrow> world \<Rightarrow> world \<Rightarrow> bool" where
  "ordered_since en s s' =
     (writes s' = writes s @ new_writes s s'
      \<and> list_all (\<lambda>(k, st). checkpoint_order en st) (new_writes s s')
      \<and> store_ordered en s')"


subsection \<open>Runs of the pipeline, one after another\<close>

text \<open>
  A job is one execution of the pipeline: its polling budget, the behaviour of the
  collaborators during it, the video extensions, the driver's configuration and the
  task. \<open>run_all\<close> runs jobs one after another on the same store, whatever the outcome
  of each (returned, raised, or still polling when the process stopped): the worlds it
  reaches from \<open>init_world\<close> are those whose store only the pipeline has written.
\<close>

record job =
  budget :: nat
  collaborators :: env
  extensions :: "string list"
  loop :: Loop
  task :: TaskInfo

fun run_all :: "job list \<Rightarrow> world \<Rightarrow> world" where
  "run_all [] s = s"
| "run_all (j # js) s =
     run_all js (snd (pipeline (budget j) (collaborators j) (extensions j) (loop j) (task j) s))"

subsection \<open>Concrete inputs\<close>

definition example_task :: TaskInfo where
  "example_task =
     \<lparr>name = ''Show'', episode = 3, title = ''[Group] Show - 03'', link = ''https://nyaa.example/3.torrent'',
      hash = ''abc123'', pub_date = ''2024-10-01'', size_str = ''1.1 GiB'',
      uploader = ''Group'', script = ''import vapoursynth'', param = ''-c:v libx265''\<rparr>"

definition example_exts :: "string list" where
  "example_exts = [''.mkv'', ''.mp4'']"

definition example_sender :: TGChannelSender where
  "example_sender = \<lparr>channel_id = ''@channel''\<rparr>"

text \<open>
  A world in which every call succeeds at once: the download is \<^verbatim>\<open>/data/abc123.mkv\<close>, and
  the name generated for the result is \<^verbatim>\<open>Show-03.mkv\<close>.
\<close>

definition willing_env :: env where
  "willing_env =
     \<lparr>raises = (\<lambda>h. None), truth = (\<lambda>h. True),
      answer = (\<lambda>h. case last h of MI_gen_file_name _ _ _ _ \<Rightarrow> ''Show-03.mkv''
                      | _ \<Rightarrow> ''/data/abc123.mkv''),
      guess_type = (\<lambda>p. None)\<rparr>"

definition stored :: "TaskStatus \<Rightarrow> world" where
  "stored st = \<lparr>store = [''abc123'' \<mapsto> st], calls = [], writes = []\<rparr>"

definition status_done :: TaskStatus where
  "status_done =
     \<lparr>done_flag = True, bt_downloaded_path = Some ''/data/abc123.mkv'',
      finalrip_downloaded_path = Some ''/data/Show-03.mkv'', tg_uploaded = True\<rparr>"

definition status_transcoded :: TaskStatus where
  "status_transcoded =
     \<lparr>done_flag = False, bt_downloaded_path = Some ''/data/abc123.mkv'',
      finalrip_downloaded_path = Some ''/data/Show-03.mkv'', tg_uploaded = False\<rparr>"

definition status_acquired :: TaskStatus where
  "status_acquired =
     \<lparr>done_flag = False, bt_downloaded_path = Some ''/data/abc123.mkv'',
      finalrip_downloaded_path = None, tg_uploaded = False\<rparr>"

text \<open>A world in which no file exists, one whose bot refuses the video, and one without network.\<close>

definition absent_env :: env where
  "absent_env =
     \<lparr>raises = (\<lambda>h. None), truth = (\<lambda>h. False), answer = (\<lambda>h. []), guess_type = (\<lambda>p. None)\<rparr>"



text \<open>
  A pass of the driver over three feeds, one item each. The second feed names a script
  that the configuration does not have.
\<close>

definition feed_b :: NyaaConfig where
  "feed_b = \<lparr>cfg_name = ''Show B'', cfg_uploader = ''Group'', cfg_script = ''default'', cfg_param = ''default''\<rparr>"

definition feed_a :: NyaaConfig where
  "feed_a = \<lparr>cfg_name = ''Show A'', cfg_uploader = ''Group'', cfg_script = ''missing'', cfg_param = ''default''\<rparr>"

definition feed_c :: NyaaConfig where
  "feed_c = \<lparr>cfg_name = ''Show C'', cfg_uploader = ''Group'', cfg_script = ''default'', cfg_param = ''default''\<rparr>"

definition example_rss :: RSSConfig where
  "example_rss =
     \<lparr>scripts = [''default'' \<mapsto> ''import vapoursynth''], params = [''default'' \<mapsto> ''-c:v libx265''],
      nyaa = [feed_b, feed_a, feed_c]\<rparr>"

definition example_item :: "string \<Rightarrow> string \<Rightarrow> TorrentInfo" where
  "example_item nm h =
     \<lparr>name = nm, episode = 3, title = nm, link = ''https://nyaa.example/3.torrent'',
      hash = h, pub_date = ''2024-10-01'', size_str = ''1.1 GiB''\<rparr>"

definition example_tick :: tick where
  "example_tick =
     \<lparr>stop_is_set = False, refreshed = example_rss,
      parse_nyaa = (\<lambda>cfg. if cfg_name cfg = ''Show A'' then [example_item ''Show A'' ''aaa111'']
                           else if cfg_name cfg = ''Show B'' then [example_item ''Show B'' ''bbb222'']
                           else [example_item ''Show C'' ''ccc333''])\<rparr>"

text \<open>
  A world whose transcode service refuses to start a task, one whose every service is
  down, and the two runs of a task that resumes after a failure.
\<close>

definition stalled_env :: env where
  "stalled_env =
     \<lparr>raises = (\<lambda>h. case last h of
                        FR_start_task _ _ _ \<Rightarrow> Some (OtherError ''503 Service Unavailable'')
                      | _ \<Rightarrow> None),
      truth = (\<lambda>h. True), answer = (\<lambda>h. ''/data/abc123.mkv''), guess_type = (\<lambda>p. None)\<rparr>"

definition down_env :: env where
  "down_env =
     \<lparr>raises = (\<lambda>h. Some (OtherError ''Connection refused'')), truth = (\<lambda>h. False),
      answer = (\<lambda>h. []), guess_type = (\<lambda>p. None)\<rparr>"

definition first_run :: job where
  "first_run =
     \<lparr>budget = Suc 0, collaborators = stalled_env, extensions = example_exts,
      loop = \<lparr>tg_channel_sender = None\<rparr>, task = example_task\<rparr>"

definition second_run :: job where
  "second_run =
     \<lparr>budget = Suc 0, collaborators = willing_env, extensions = example_exts,
      loop = \<lparr>tg_channel_sender = None\<rparr>, task = example_task\<rparr>"

text \<open>
  A path whose single component has 300 characters, a world in which the existence test
  of a component of more than 255 characters raises (\<^verbatim>\<open>OSError\<close>, file name too long) and
  no file exists, and a world in which the video exists but may not be read.
\<close>

definition long_name :: string where
  "long_name = replicate 300 (CHR ''a'')"

definition long_name_env :: env where
  "long_name_env =
     \<lparr>raises = (\<lambda>h. case last h of
                        FS_exists p \<Rightarrow> if 255 < length p then Some OSError else None
                      | _ \<Rightarrow> None),
      truth = (\<lambda>h. False), answer = (\<lambda>h. []), guess_type = (\<lambda>p. None)\<rparr>"


section \<open>Lemmas\<close>

subsection \<open>Attempts of \<^verbatim>\<open>send_video\<close>\<close>










subsection \<open>The discovery cycle\<close>

lemma submit_items_flat:
  "submit_items rss cfg items sub = submit_flat rss (map (Pair cfg) items) sub"
  by (induction items arbitrary: sub) (auto split: sum.splits)

lemma submit_flat_append:
  "submit_flat rss (xs @ ys) sub =
     (case submit_flat rss xs sub of
        (Inl e, sub') \<Rightarrow> (Inl e, sub')
      | (Inr _, sub') \<Rightarrow> submit_flat rss ys sub')"
  by (induction xs arbitrary: sub) (auto split: sum.splits)

lemma scan_feeds_flat:
  "scan_feeds t cfgs sub =
     submit_flat (refreshed t) (concat (map (\<lambda>cfg. map (Pair cfg) (parse_nyaa t cfg)) cfgs)) sub"
  by (induction cfgs arbitrary: sub)
     (auto simp: submit_items_flat submit_flat_append split: prod.splits sum.splits)

lemma submit_flat_builds:
  assumes "list_all (builds rss) xs"
  shows "\<exists>sub'. submit_flat rss xs sub = (Inr (), sub @ sub') \<and> map fst sub' = map (\<lambda>x. hash (snd x)) xs"
  using assms
proof (induction xs arbitrary: sub)
  case Nil
  then show ?case by simp
next
  case (Cons x xs)
  then obtain task_info where b: "build_task_info (snd x) (fst x) rss = Inr task_info"
    by (auto simp: builds_def split: sum.splits)
  from Cons obtain sub' where
    "submit_flat rss xs (sub @ [(hash (snd x), task_info)]) = (Inr (), (sub @ [(hash (snd x), task_info)]) @ sub')"
    "map fst sub' = map (\<lambda>x. hash (snd x)) xs"
    by fastforce
  with b show ?case
    by (intro exI [of _ "(hash (snd x), task_info) # sub'"]) simp
qed

lemma build_task_info_unknown:
  assumes "cfg_script cfg \<notin> dom (scripts rss) \<or> cfg_param cfg \<notin> dom (params rss)"
  shows "build_task_info item cfg rss = Inl ValueError"
  using assms by (auto simp: build_task_info_def split: option.splits)

subsection \<open>The task executor\<close>

lemma running_submit:
  "running (submit k work ex) k' =
     (if k' = k \<and> running ex k = [] then [work] else running ex k')"
  by (auto simp: running_def submit_def)

lemma running_finish:
  "running (finish k ex) k' = (if k' = k then [] else running ex k')"
proof -
  have "filter (\<lambda>(k'', _). k'' = k') (filter (\<lambda>(k'', _). k'' \<noteq> k) ex) =
        (if k' = k then [] else filter (\<lambda>(k'', _). k'' = k') ex)"
    by (induction ex) auto
  then show ?thesis by (simp add: running_def finish_def)
qed

lemma executor_run_at_most_one:
  assumes "\<forall>k. length (running ex k) \<le> 1"
  shows "length (running (executor_run evs ex) k) \<le> 1"
  using assms
proof (induction evs arbitrary: ex)
  case Nil
  then show ?case by simp
next
  case (Cons ev evs)
  show ?case
  proof (cases ev)
    case (Submit k' work)
    have "\<forall>k. length (running (submit k' work ex) k) \<le> 1"
      using Cons.prems by (simp add: running_submit)
    with Cons.IH Submit show ?thesis by simp
  next
    case (Finish k')
    have "\<forall>k. length (running (finish k' ex) k) \<le> 1"
      using Cons.prems by (simp add: running_finish)
    with Cons.IH Finish show ?thesis by simp
  qed
qed


subsection \<open>Reasoning about runs\<close>

lemma bind_run_cases:
  assumes "bind_run m f s = (r, s')"
  obtains (returned) a s1 where "m s = (Returned a, s1)" and "f a s1 = (r, s')"
    | (raised) e where "m s = (Raised e, s')" and "r = Raised e"
    | (pending) "m s = (Pending, s')" and "r = Pending"
  using assms by (auto simp: bind_run_def split: prod.splits outcome.splits)

lemma keepsD: "keeps R m \<Longrightarrow> m s = (r, s') \<Longrightarrow> R s s'"
  by (simp add: keeps_def)

lemma keeps_ret: "preorder_rel R \<Longrightarrow> keeps R (ret a)"
  by (simp add: keeps_def preorder_rel_def ret_def)

lemma keeps_raise_error: "preorder_rel R \<Longrightarrow> keeps R (raise_error e)"
  by (simp add: keeps_def preorder_rel_def raise_error_def)

lemma keeps_pending: "preorder_rel R \<Longrightarrow> keeps R (\<lambda>s. (Pending, s))"
  by (simp add: keeps_def preorder_rel_def)

lemma keeps_bind:
  assumes "preorder_rel R" and "keeps R m" and "\<And>a. keeps R (f a)"
  shows "keeps R (bind_run m f)"
  unfolding keeps_def
proof (intro allI impI)
  fix s r s'
  assume "bind_run m f s = (r, s')"
  then show "R s s'"
  proof (cases rule: bind_run_cases)
    case (returned a s1)
    with assms have "R s s1" and "R s1 s'" by (auto dest: keepsD)
    with assms(1) show ?thesis unfolding preorder_rel_def by blast
  next
    case (raised e)
    with assms(2) show ?thesis by (auto dest: keepsD)
  next
    case pending
    with assms(2) show ?thesis by (auto dest: keepsD)
  qed
qed

lemma keeps_perform: "admits R c \<Longrightarrow> keeps R (perform ev c)"
  by (auto simp: keeps_def admits_def perform_def Let_def split: option.splits)

lemma keeps_ask: "preorder_rel R \<Longrightarrow> admits R c \<Longrightarrow> keeps R (ask ev c)"
  unfolding ask_def by (intro keeps_bind keeps_perform keeps_ret)

lemma keeps_fetch: "preorder_rel R \<Longrightarrow> admits R c \<Longrightarrow> keeps R (fetch ev c)"
  unfolding fetch_def by (intro keeps_bind keeps_perform keeps_ret)

lemma keeps_path_exists:
  "preorder_rel R \<Longrightarrow> admits R (FS_exists p) \<Longrightarrow> keeps R (path_exists ev p)"
  unfolding path_exists_def by (rule keeps_ask)

lemma keeps_sleep: "admits R c \<Longrightarrow> keeps R (sleep c)"
  by (auto simp: keeps_def admits_def sleep_def)

lemma keeps_except_non_network: "keeps R m \<Longrightarrow> keeps R (except_non_network m)"
  by (auto simp: keeps_def except_non_network_def split: prod.splits outcome.splits if_splits)

lemma keeps_retrying:
  assumes "preorder_rel R" and "admits R (Sleep_random 3 5)" and "keeps R m"
  shows "keeps R (retrying k m)"
proof (induction k)
  case 0
  from assms(1) show ?case by (simp add: keeps_raise_error)
next
  case (Suc k)
  have w: "keeps R (bind_run (sleep (Sleep_random 3 5)) (\<lambda>_. retrying k m))"
    using assms Suc by (intro keeps_bind keeps_sleep)
  show ?case
    unfolding keeps_def
  proof (intro allI impI)
    fix s r s'
    assume run: "retrying (Suc k) m s = (r, s')"
    obtain r1 s1 where m: "m s = (r1, s1)" by (cases "m s")
    with assms(3) have 1: "R s s1" by (auto dest: keepsD)
    show "R s s'"
    proof (cases r1)
      case (Returned a)
      with run m 1 show ?thesis by simp
    next
      case (Raised e)
      show ?thesis
      proof (cases "k = 0")
        case True
        with run m Raised 1 show ?thesis by simp
      next
        case False
        with run m Raised
        have "bind_run (sleep (Sleep_random 3 5)) (\<lambda>_. retrying k m) s1 = (r, s')" by simp
        with w have "R s1 s'" by (rule keepsD)
        with 1 assms(1) show ?thesis unfolding preorder_rel_def by blast
      qed
    next
      case Pending
      with run m 1 show ?thesis by simp
    qed
  qed
qed

lemma admits_later [simp]:
  assumes "admits_later_stages R"
  shows "admits R (FS_exists p)" "admits R (FS_open p)" "admits R (Bot_send_video a b c)"
    "admits R (Sleep n)" "admits R (Sleep_random n k)"
    "admits R (FR_check_task_exist p)" "admits R (FR_get_oss_presigned_url p)"
    "admits R (HTTP_put a b c)" "admits R (FR_new_task p)" "admits R (FR_start_task a b c)"
    "admits R (FR_check_task_completed p)" "admits R (FR_download_completed_task a b)"
    "admits R (MI_gen_file_name a i b c)" "admits R (Path_rename a b)"
  using assms by (simp_all add: admits_later_stages_def is_acquisition_call_def)

lemma keeps_send_video_attempt:
  "preorder_rel R \<Longrightarrow> admits_later_stages R \<Longrightarrow> keeps R (send_video_attempt ev self p cap)"
  unfolding send_video_attempt_def Let_def
  by (intro keeps_bind keeps_path_exists)
     (auto intro!: keeps_raise_error keeps_bind keeps_perform keeps_except_non_network)

lemma keeps_send_video:
  "preorder_rel R \<Longrightarrow> admits_later_stages R \<Longrightarrow> keeps R (send_video ev self p cap)"
  unfolding send_video_def by (rule keeps_retrying) (simp_all add: keeps_send_video_attempt)

lemma keeps_upload_and_new_task:
  "preorder_rel R \<Longrightarrow> admits_later_stages R \<Longrightarrow> keeps R (upload_and_new_task ev exts p)"
  unfolding upload_and_new_task_def Let_def
  by (intro keeps_bind keeps_path_exists)
     (auto intro!: keeps_raise_error keeps_bind keeps_perform keeps_ask keeps_ret)

lemma keeps_wait_task_exist:
  "preorder_rel R \<Longrightarrow> admits_later_stages R \<Longrightarrow> keeps R (wait_task_exist n ev exts p)"
  by (induction n)
     (auto intro!: keeps_pending keeps_bind keeps_ask keeps_ret keeps_sleep keeps_upload_and_new_task)

lemma keeps_wait_task_completed:
  "preorder_rel R \<Longrightarrow> admits_later_stages R \<Longrightarrow> keeps R (wait_task_completed n ev k)"
  by (induction n) (auto intro!: keeps_pending keeps_bind keeps_ask keeps_ret keeps_sleep)

lemma keeps_wait_torrent_exist:
  "preorder_rel R \<Longrightarrow> (\<And>c. admits R c) \<Longrightarrow> keeps R (wait_torrent_exist n ev ti)"
  by (induction n) (auto intro!: keeps_pending keeps_bind keeps_ask keeps_ret keeps_sleep keeps_perform)

lemma keeps_wait_download_complete:
  "preorder_rel R \<Longrightarrow> (\<And>c. admits R c) \<Longrightarrow> keeps R (wait_download_complete n ev ti)"
  by (induction n) (auto intro!: keeps_pending keeps_bind keeps_ask keeps_ret keeps_sleep)

lemma keeps_caption_of: "preorder_rel R \<Longrightarrow> keeps R (caption_of ti p)"
  unfolding caption_of_def by (auto intro: keeps_raise_error keeps_ret split: sum.splits)


lemma keeps_download_torrent:
  "preorder_rel R \<Longrightarrow> (\<And>c. admits R c) \<Longrightarrow> keeps R (download_torrent n ev ti)"
  unfolding download_torrent_def
  by (intro keeps_bind keeps_wait_torrent_exist keeps_wait_download_complete keeps_fetch)

lemma keeps_encode_video:
  "preorder_rel R \<Longrightarrow> admits_later_stages R \<Longrightarrow> keeps R (encode_video n ev exts ti p)"
  unfolding encode_video_def Let_def
  by (intro keeps_bind keeps_wait_task_exist keeps_wait_task_completed keeps_perform keeps_fetch
        keeps_ret admits_later)

lemma same_store_preorder: "preorder_rel same_store"
  by (simp add: preorder_rel_def same_store_def)

lemma same_store_admits: "admits same_store c"
  by (simp add: admits_def same_store_def)

lemma same_store_admits_later: "admits_later_stages same_store"
  by (simp add: admits_later_stages_def same_store_admits)

lemma later_calls_preorder: "preorder_rel later_calls"
  unfolding preorder_rel_def later_calls_def
proof (intro conjI allI impI)
  fix s
  show "\<exists>cs. calls s = calls s @ cs \<and> list_all (\<lambda>c. \<not> is_acquisition_call c) cs"
    by (rule exI [of _ "[]"]) simp
next
  fix s t u
  assume "\<exists>cs. calls t = calls s @ cs \<and> list_all (\<lambda>c. \<not> is_acquisition_call c) cs"
    and "\<exists>cs. calls u = calls t @ cs \<and> list_all (\<lambda>c. \<not> is_acquisition_call c) cs"
  then obtain cs1 cs2 where "calls t = calls s @ cs1" "list_all (\<lambda>c. \<not> is_acquisition_call c) cs1"
    "calls u = calls t @ cs2" "list_all (\<lambda>c. \<not> is_acquisition_call c) cs2"
    by blast
  then show "\<exists>cs. calls u = calls s @ cs \<and> list_all (\<lambda>c. \<not> is_acquisition_call c) cs"
    by (intro exI [of _ "cs1 @ cs2"]) simp
qed

lemma later_calls_admits_later: "admits_later_stages later_calls"
  by (simp add: admits_later_stages_def admits_def later_calls_def)

lemma later_calls_refl: "later_calls s s"
  using later_calls_preorder by (simp add: preorder_rel_def)

lemma first_then_later:
  assumes "first_call c s t" and "later_calls t u"
  shows "first_call c s u"
proof -
  from assms obtain cs1 cs2 where "calls t = calls s @ c # cs1" "list_all (\<lambda>c. \<not> is_acquisition_call c) cs1"
    "calls u = calls t @ cs2" "list_all (\<lambda>c. \<not> is_acquisition_call c) cs2"
    unfolding first_call_def later_calls_def by blast
  then show ?thesis
    unfolding first_call_def by (intro exI [of _ "cs1 @ cs2"]) simp
qed

lemma keeps_first_bind:
  assumes "keeps (first_call c) m" and "\<And>a. keeps later_calls (f a)"
  shows "keeps (first_call c) (bind_run m f)"
  unfolding keeps_def
proof (intro allI impI)
  fix s r s'
  assume "bind_run m f s = (r, s')"
  then show "first_call c s s'"
  proof (cases rule: bind_run_cases)
    case (returned a s1)
    with assms have "first_call c s s1" and "later_calls s1 s'" by (auto dest: keepsD)
    then show ?thesis by (rule first_then_later)
  next
    case (raised e)
    with assms(1) show ?thesis by (auto dest: keepsD)
  next
    case pending
    with assms(1) show ?thesis by (auto dest: keepsD)
  qed
qed

lemma keeps_first_ask:
  "\<not> is_acquisition_call c \<Longrightarrow> keeps (first_call c) (ask ev c)"
  by (auto simp: keeps_def first_call_def ask_def bind_run_def perform_def ret_def Let_def
      split: option.splits)

lemma keeps_later_update_task: "keeps later_calls (update_task k st)"
  by (auto simp: keeps_def update_task_def later_calls_def split: if_splits)

lemma keeps_later_checkpoint: "keeps later_calls (checkpoint k st)"
  unfolding checkpoint_def
  by (intro keeps_bind keeps_later_update_task keeps_ret later_calls_preorder)

lemma keeps_later_publish_stage: "keeps later_calls (publish_stage ev self ti ts f)"
  unfolding publish_stage_def send_and_mark_def
  by (auto intro!: keeps_bind keeps_ret keeps_caption_of keeps_send_video keeps_later_checkpoint
      later_calls_preorder later_calls_admits_later split: option.splits)

lemma keeps_later_transcode_stage: "keeps later_calls (transcode_stage n ev exts ti ts p)"
  unfolding transcode_stage_def
  by (auto intro!: keeps_bind keeps_ret keeps_encode_video keeps_later_checkpoint
      later_calls_preorder later_calls_admits_later)

lemma keeps_first_transcode_stage:
  assumes "finalrip_downloaded_path ts = None"
  shows "keeps (first_call (FR_check_task_exist (path_name p))) (transcode_stage (Suc n) ev exts ti ts p)"
  using assms
  unfolding transcode_stage_def encode_video_def Let_def
  apply simp
  apply (intro keeps_first_bind keeps_first_ask)
  apply (simp add: is_acquisition_call_def)
  apply (auto intro!: keeps_bind keeps_ret keeps_sleep keeps_upload_and_new_task keeps_wait_task_exist
      keeps_wait_task_completed keeps_perform keeps_ask keeps_fetch keeps_later_checkpoint
      later_calls_preorder later_calls_admits_later admits_later)
  done



subsection \<open>Pre- and postconditions\<close>

lemma hoareD:
  assumes "hoare P m Q E" and "P s" and "m s = (r, s')"
  shows "case r of Returned a \<Rightarrow> Q a s' | Raised e \<Rightarrow> E s' | Pending \<Rightarrow> E s'"
  using assms unfolding hoare_def by blast

lemma hoare_ret: "(\<And>s. P s \<Longrightarrow> Q a s) \<Longrightarrow> hoare P (ret a) Q E"
  by (simp add: hoare_def ret_def)

lemma hoare_raise_error: "(\<And>s. P s \<Longrightarrow> E s) \<Longrightarrow> hoare P (raise_error e) Q E"
  by (simp add: hoare_def raise_error_def)

lemma hoare_bind:
  assumes "hoare P m Q1 E" and "\<And>a. hoare (Q1 a) (f a) Q E"
  shows "hoare P (bind_run m f) Q E"
  unfolding hoare_def
proof (intro allI impI)
  fix s r s'
  assume P: "P s" and run: "bind_run m f s = (r, s')"
  from run show "case r of Returned a \<Rightarrow> Q a s' | Raised e \<Rightarrow> E s' | Pending \<Rightarrow> E s'"
  proof (cases rule: bind_run_cases)
    case (returned a s1)
    from hoareD [OF assms(1) P returned(1)] have "Q1 a s1" by simp
    from hoareD [OF assms(2) this returned(2)] show ?thesis .
  next
    case (raised e)
    from hoareD [OF assms(1) P raised(1)] raised(2) show ?thesis by simp
  next
    case pending
    from hoareD [OF assms(1) P pending(1)] pending(2) show ?thesis by simp
  qed
qed

lemma hoare_weaken:
  assumes "hoare P m Q E" and "\<And>s. P' s \<Longrightarrow> P s" and "\<And>a s. Q a s \<Longrightarrow> Q' a s"
    and "\<And>s. E s \<Longrightarrow> E' s"
  shows "hoare P' m Q' E'"
  unfolding hoare_def
proof (intro allI impI)
  fix s r s'
  assume "P' s" and run: "m s = (r, s')"
  then have "P s" by (simp add: assms(2))
  from hoareD [OF assms(1) this run] show "case r of Returned a \<Rightarrow> Q' a s' | Raised e \<Rightarrow> E' s' | Pending \<Rightarrow> E' s'"
    by (cases r) (simp_all add: assms(3,4))
qed

lemma hoare_fact:
  assumes "A \<Longrightarrow> hoare P m Q E"
  shows "hoare (\<lambda>s. P s \<and> A) m Q E"
  using assms unfolding hoare_def by blast

lemma hoare_quiet:
  assumes "keeps same_store m" and "stable I"
  shows "hoare I m (\<lambda>_. I) I"
  unfolding hoare_def
proof (intro allI impI)
  fix s r s'
  assume "I s" and "m s = (r, s')"
  with assms have "I s'" unfolding stable_def by (blast dest: keepsD)
  then show "case r of Returned a \<Rightarrow> I s' | Raised e \<Rightarrow> I s' | Pending \<Rightarrow> I s'"
    by (cases r) simp_all
qed

lemma hoare_checkpoint:
  assumes "hoare I (update_task k st) (\<lambda>_. I) I"
  shows "hoare I (checkpoint k st) (\<lambda>a s. I s \<and> a = st) I"
  unfolding checkpoint_def
  by (rule hoare_bind [OF assms]) (simp add: hoare_ret)

lemma hoare_check_task_exist: "hoare I (check_task_exist k) (\<lambda>_. I) I"
  by (simp add: hoare_def check_task_exist_def)

subsection \<open>The stages maintain an invariant of the store\<close>

lemma maintainedD:
  assumes "maintained I G k"
  shows "stable I" and "stage_closed G" and "G st \<Longrightarrow> hoare I (update_task k st) (\<lambda>_. I) I"
  using assms unfolding maintained_def by blast+

lemma hoare_checkpoint_stage:
  assumes "maintained I G k" and "G st"
  shows "hoare I (checkpoint k st) (\<lambda>ts' s. I s \<and> G ts') I"
proof -
  have "hoare I (checkpoint k st) (\<lambda>a s. I s \<and> a = st) I"
    by (rule hoare_checkpoint) (rule maintainedD(3) [OF assms])
  then show ?thesis
    by (rule hoare_weaken) (simp_all add: assms(2))
qed

lemma acquire_stage_hoare:
  assumes m: "maintained I G (hash ti)" and "G ts"
  shows "hoare I (acquire_stage n ev ti ts) (\<lambda>ts' s. I s \<and> G ts') I"
proof (cases "bt_downloaded_path ts")
  case None
  have work: "hoare I (download_torrent n ev ti) (\<lambda>_. I) I"
    by (intro hoare_quiet keeps_download_torrent same_store_preorder same_store_admits maintainedD(1) [OF m])
  have "hoare I (checkpoint (hash ti) (ts\<lparr>bt_downloaded_path := Some p\<rparr>)) (\<lambda>ts' s. I s \<and> G ts') I" for p
  proof (rule hoare_checkpoint_stage [OF m])
    show "G (ts\<lparr>bt_downloaded_path := Some p\<rparr>)"
      using maintainedD(2) [OF m] assms(2) None unfolding stage_closed_def by blast
  qed
  then have "hoare I (bind_run (download_torrent n ev ti)
      (\<lambda>p. checkpoint (hash ti) (ts\<lparr>bt_downloaded_path := Some p\<rparr>))) (\<lambda>ts' s. I s \<and> G ts') I"
    by (rule hoare_bind [OF work])
  with None show ?thesis
    by (simp add: acquire_stage_def)
next
  case (Some p)
  with assms(2) show ?thesis
    by (simp add: acquire_stage_def hoare_ret)
qed

lemma transcode_stage_hoare:
  assumes m: "maintained I G (hash ti)" and "G ts" and "bt_downloaded_path ts \<noteq> None"
  shows "hoare I (transcode_stage n ev exts ti ts p) (\<lambda>ts' s. I s \<and> G ts') I"
proof (cases "finalrip_downloaded_path ts")
  case None
  have work: "hoare I (encode_video n ev exts ti p) (\<lambda>_. I) I"
    by (intro hoare_quiet keeps_encode_video same_store_preorder same_store_admits_later maintainedD(1) [OF m])
  have "hoare I (checkpoint (hash ti) (ts\<lparr>finalrip_downloaded_path := Some f\<rparr>)) (\<lambda>ts' s. I s \<and> G ts') I" for f
  proof (rule hoare_checkpoint_stage [OF m])
    show "G (ts\<lparr>finalrip_downloaded_path := Some f\<rparr>)"
      using maintainedD(2) [OF m] assms(2,3) None unfolding stage_closed_def by blast
  qed
  then have "hoare I (bind_run (encode_video n ev exts ti p)
      (\<lambda>f. checkpoint (hash ti) (ts\<lparr>finalrip_downloaded_path := Some f\<rparr>))) (\<lambda>ts' s. I s \<and> G ts') I"
    by (rule hoare_bind [OF work])
  with None show ?thesis
    by (simp add: transcode_stage_def)
next
  case (Some f)
  with assms(2) show ?thesis
    by (simp add: transcode_stage_def hoare_ret)
qed

lemma publish_stage_hoare:
  assumes m: "maintained I G (hash ti)" and "G ts" and "finalrip_downloaded_path ts \<noteq> None"
  shows "hoare I (publish_stage ev self ti ts f) (\<lambda>ts' s. I s \<and> G ts') I"
proof (cases "tg_uploaded ts")
  case True
  with assms(2) show ?thesis
    by (simp add: publish_stage_def hoare_ret)
next
  case False
  show ?thesis
  proof (cases "tg_channel_sender self")
    case None
    with False assms(2) show ?thesis
      by (simp add: publish_stage_def hoare_ret)
  next
    case (Some sender)
    have cap: "hoare I (caption_of ti f) (\<lambda>_. I) I"
      by (intro hoare_quiet keeps_caption_of same_store_preorder maintainedD(1) [OF m])
    have send: "hoare I (send_video ev sender f (Some c)) (\<lambda>_. I) I" for c
      by (intro hoare_quiet keeps_send_video same_store_preorder same_store_admits_later maintainedD(1) [OF m])
    have mark: "hoare I (checkpoint (hash ti) (ts\<lparr>tg_uploaded := True\<rparr>)) (\<lambda>ts' s. I s \<and> G ts') I"
    proof (rule hoare_checkpoint_stage [OF m])
      show "G (ts\<lparr>tg_uploaded := True\<rparr>)"
        using maintainedD(2) [OF m] assms(2,3) False unfolding stage_closed_def by blast
    qed
    have "hoare I (send_and_mark ev sender ti ts f c) (\<lambda>ts' s. I s \<and> G ts') I" for c
      unfolding send_and_mark_def by (rule hoare_bind [OF send]) (rule mark)
    then have "hoare I (bind_run (caption_of ti f) (\<lambda>c. send_and_mark ev sender ti ts f c))
        (\<lambda>ts' s. I s \<and> G ts') I"
      by (rule hoare_bind [OF cap])
    with Some False show ?thesis
      by (simp add: publish_stage_def)
  qed
qed

lemma run_stages_hoare:
  assumes m: "maintained I G (hash ti)"
    and final: "\<forall>st. G st \<and> tg_uploaded st \<longrightarrow>
                  hoare I (update_task (hash ti) (st\<lparr>done_flag := True\<rparr>)) Qf I"
    and "G ts"
  shows "hoare I (run_stages n ev exts self ti ts) Qf I"
proof -
  have last_step: "hoare (\<lambda>s. I s \<and> G ts3)
       (if \<not> tg_uploaded ts3 then raise_error AssertionError
        else update_task (hash ti) (ts3\<lparr>done_flag := True\<rparr>)) Qf I" for ts3
    by (rule hoare_fact) (use final in \<open>simp add: hoare_raise_error\<close>)
  have after_transcode: "hoare (\<lambda>s. I s \<and> G ts2)
       (case finalrip_downloaded_path ts2 of None \<Rightarrow> raise_error AssertionError
        | Some finalrip_path \<Rightarrow>
            bind_run (publish_stage ev self ti ts2 finalrip_path) (\<lambda>task_status.
              if \<not> tg_uploaded task_status then raise_error AssertionError
              else update_task (hash ti) (task_status\<lparr>done_flag := True\<rparr>))) Qf I" for ts2
  proof (rule hoare_fact)
    assume g2: "G ts2"
    show "hoare I
       (case finalrip_downloaded_path ts2 of None \<Rightarrow> raise_error AssertionError
        | Some finalrip_path \<Rightarrow>
            bind_run (publish_stage ev self ti ts2 finalrip_path) (\<lambda>task_status.
              if \<not> tg_uploaded task_status then raise_error AssertionError
              else update_task (hash ti) (task_status\<lparr>done_flag := True\<rparr>))) Qf I"
    proof (cases "finalrip_downloaded_path ts2")
      case None
      then show ?thesis by (simp add: hoare_raise_error)
    next
      case (Some finalrip_path)
      then have "finalrip_downloaded_path ts2 \<noteq> None" by simp
      from hoare_bind [OF publish_stage_hoare [OF m g2 this] last_step] Some
      show ?thesis by simp
    qed
  qed
  have after_acquire: "hoare (\<lambda>s. I s \<and> G ts1)
       (case bt_downloaded_path ts1 of None \<Rightarrow> raise_error AssertionError
        | Some bt_path \<Rightarrow>
            bind_run (transcode_stage n ev exts ti ts1 bt_path) (\<lambda>task_status.
              case finalrip_downloaded_path task_status of None \<Rightarrow> raise_error AssertionError
              | Some finalrip_path \<Rightarrow>
                  bind_run (publish_stage ev self ti task_status finalrip_path) (\<lambda>task_status.
                    if \<not> tg_uploaded task_status then raise_error AssertionError
                    else update_task (hash ti) (task_status\<lparr>done_flag := True\<rparr>)))) Qf I" for ts1
  proof (rule hoare_fact)
    assume g1: "G ts1"
    show "hoare I
       (case bt_downloaded_path ts1 of None \<Rightarrow> raise_error AssertionError
        | Some bt_path \<Rightarrow>
            bind_run (transcode_stage n ev exts ti ts1 bt_path) (\<lambda>task_status.
              case finalrip_downloaded_path task_status of None \<Rightarrow> raise_error AssertionError
              | Some finalrip_path \<Rightarrow>
                  bind_run (publish_stage ev self ti task_status finalrip_path) (\<lambda>task_status.
                    if \<not> tg_uploaded task_status then raise_error AssertionError
                    else update_task (hash ti) (task_status\<lparr>done_flag := True\<rparr>)))) Qf I"
    proof (cases "bt_downloaded_path ts1")
      case None
      then show ?thesis by (simp add: hoare_raise_error)
    next
      case (Some bt_path)
      then have "bt_downloaded_path ts1 \<noteq> None" by simp
      from hoare_bind [OF transcode_stage_hoare [OF m g1 this] after_transcode] Some
      show ?thesis by simp
    qed
  qed
  show ?thesis
    unfolding run_stages_def
    by (rule hoare_bind [OF acquire_stage_hoare [OF m assms(3)] after_acquire])
qed



subsection \<open>Two invariants\<close>

lemma new_writes_eq: "writes s' = writes s @ ws \<Longrightarrow> new_writes s s' = ws"
  by (simp add: new_writes_def)


lemma stage_closed_checkpoint_order: "stage_closed (checkpoint_order en)"
  by (auto simp: stage_closed_def checkpoint_order_def)




lemma ordered_since_update_task:
  assumes "checkpoint_order en st"
  shows "hoare (ordered_since en s0) (update_task k st) (\<lambda>_. ordered_since en s0) (ordered_since en s0)"
  unfolding hoare_def
proof (intro allI impI)
  fix s r s'
  assume inv: "ordered_since en s0 s" and run: "update_task k st s = (r, s')"
  show "case r of Returned a \<Rightarrow> ordered_since en s0 s' | Raised e \<Rightarrow> ordered_since en s0 s'
        | Pending \<Rightarrow> ordered_since en s0 s'"
  proof (cases "store s k = None")
    case True
    with run inv show ?thesis by (auto simp: update_task_def)
  next
    case False
    with run have r: "r = Returned ()"
      and s': "s' = s\<lparr>store := (store s)(k \<mapsto> st), writes := writes s @ [(k, st)]\<rparr>"
      by (auto simp: update_task_def)
    from inv have w: "writes s = writes s0 @ new_writes s0 s"
      and good: "list_all (\<lambda>(k, st). checkpoint_order en st) (new_writes s0 s)"
      and st: "store_ordered en s"
      by (simp_all add: ordered_since_def)
    from w s' have "writes s' = writes s0 @ (new_writes s0 s @ [(k, st)])"
      by simp
    then have n: "new_writes s0 s' = new_writes s0 s @ [(k, st)]"
      by (rule new_writes_eq)
    have "store_ordered en s'"
      using st assms s' by (simp add: store_ordered_def)
    then have "ordered_since en s0 s'"
      unfolding ordered_since_def n using w good assms s' by simp
    with r show ?thesis by simp
  qed
qed

lemma ordered_since_add_task:
  "hoare (ordered_since en s0) (add_task k TaskStatus_default)
     (\<lambda>_. ordered_since en s0) (ordered_since en s0)"
  unfolding hoare_def
proof (intro allI impI)
  fix s r s'
  assume inv: "ordered_since en s0 s" and run: "add_task k TaskStatus_default s = (r, s')"
  have d: "checkpoint_order en TaskStatus_default"
    by (simp add: checkpoint_order_def TaskStatus_default_def)
  show "case r of Returned a \<Rightarrow> ordered_since en s0 s' | Raised e \<Rightarrow> ordered_since en s0 s'
        | Pending \<Rightarrow> ordered_since en s0 s'"
  proof (cases "store s k = None")
    case False
    with run inv show ?thesis by (auto simp: add_task_def)
  next
    case True
    with run have r: "r = Returned ()"
      and s': "s' = s\<lparr>store := (store s)(k \<mapsto> TaskStatus_default),
                      writes := writes s @ [(k, TaskStatus_default)]\<rparr>"
      by (auto simp: add_task_def)
    from inv have w: "writes s = writes s0 @ new_writes s0 s"
      and good: "list_all (\<lambda>(k, st). checkpoint_order en st) (new_writes s0 s)"
      and st: "store_ordered en s"
      by (simp_all add: ordered_since_def)
    from w s' have "writes s' = writes s0 @ (new_writes s0 s @ [(k, TaskStatus_default)])"
      by simp
    then have n: "new_writes s0 s' = new_writes s0 s @ [(k, TaskStatus_default)]"
      by (rule new_writes_eq)
    have "store_ordered en s'"
      using st d s' by (simp add: store_ordered_def)
    then have "ordered_since en s0 s'"
      unfolding ordered_since_def n using w good d s' by simp
    with r show ?thesis by simp
  qed
qed

lemma ordered_since_get_task:
  "hoare (ordered_since en s0) (get_task k)
     (\<lambda>ts s. ordered_since en s0 s \<and> checkpoint_order en ts) (ordered_since en s0)"
  by (auto simp: hoare_def get_task_def ordered_since_def store_ordered_def split: option.splits)

lemma ordered_since_stable: "stable (ordered_since en s0)"
  unfolding stable_def
proof (intro allI impI)
  fix s s'
  assume "same_store s s'" and inv: "ordered_since en s0 s"
  then have "store s' = store s" and "writes s' = writes s"
    by (simp_all add: same_store_def)
  then have "ordered_since en s0 s' = ordered_since en s0 s"
    by (simp add: ordered_since_def new_writes_def store_ordered_def)
  with inv show "ordered_since en s0 s'" by simp
qed

lemma ordered_since_maintained:
  "maintained (ordered_since en s0) (checkpoint_order en) k"
  by (simp add: maintained_def ordered_since_stable ordered_since_update_task
      stage_closed_checkpoint_order)

lemma pipeline_ordered_since:
  "hoare (ordered_since en s0) (pipeline n ev exts self ti)
     (\<lambda>_. ordered_since en s0) (ordered_since en s0)"
proof -
  let ?I = "ordered_since en s0"
  have final: "\<forall>st. checkpoint_order en st \<and> tg_uploaded st \<longrightarrow>
      hoare ?I (update_task (hash ti) (st\<lparr>done_flag := True\<rparr>)) (\<lambda>_. ?I) ?I"
    by (auto intro!: ordered_since_update_task simp: checkpoint_order_def)
  have stages: "hoare (\<lambda>s. ?I s \<and> checkpoint_order en ts)
      (if done_flag ts then ret () else run_stages n ev exts self ti ts) (\<lambda>_. ?I) ?I" for ts
    by (rule hoare_fact)
       (simp add: hoare_ret run_stages_hoare [OF ordered_since_maintained final])
  have load: "hoare ?I
      (bind_run (get_task (hash ti)) (\<lambda>task_status.
         if done_flag task_status then ret () else run_stages n ev exts self ti task_status))
      (\<lambda>_. ?I) ?I"
    by (rule hoare_bind [OF ordered_since_get_task stages])
  have create: "hoare ?I
      (if \<not> known then add_task (hash ti) TaskStatus_default else ret ()) (\<lambda>_. ?I) ?I" for known
    by (simp add: hoare_ret ordered_since_add_task)
  show ?thesis
    unfolding pipeline_def
    by (intro hoare_bind [OF hoare_check_task_exist] hoare_bind [OF create] load)
qed

lemma ordered_since_refl: "store_ordered en s \<Longrightarrow> ordered_since en s s"
  by (simp add: ordered_since_def new_writes_def)

lemma pipeline_keeps_ordered_since:
  assumes "ordered_since en s0 s"
  shows "ordered_since en s0 (snd (pipeline n ev exts self ti s))"
proof -
  obtain r s' where run: "pipeline n ev exts self ti s = (r, s')"
    by (cases "pipeline n ev exts self ti s")
  from hoareD [OF pipeline_ordered_since assms run] have "ordered_since en s0 s'"
    by (cases r) simp_all
  with run show ?thesis by simp
qed

lemma run_all_ordered_since:
  "ordered_since en s0 s \<Longrightarrow> ordered_since en s0 (run_all jobs s)"
  by (induction jobs arbitrary: s) (simp_all add: pipeline_keeps_ordered_since)

lemma init_world_ordered: "store_ordered en init_world"
  by (simp add: store_ordered_def init_world_def)

lemma reached_store_ordered: "store_ordered en (run_all jobs init_world)"
  using run_all_ordered_since [OF ordered_since_refl [OF init_world_ordered]]
  by (simp add: ordered_since_def)

subsection \<open>A stage that does not return has written nothing\<close>







subsection \<open>Resuming at the transcode stage\<close>

lemma keeps_later_after_transcode:
  "keeps later_calls
     (case finalrip_downloaded_path ts of None \<Rightarrow> raise_error AssertionError
      | Some finalrip_path \<Rightarrow>
          bind_run (publish_stage ev self ti ts finalrip_path) (\<lambda>task_status.
            if \<not> tg_uploaded task_status then raise_error AssertionError
            else update_task (hash ti) (task_status\<lparr>done_flag := True\<rparr>)))"
  by (auto intro!: keeps_bind keeps_raise_error keeps_later_publish_stage keeps_later_update_task
      later_calls_preorder split: option.splits)

lemma pipeline_resumes_at_transcode:
  assumes "store s (hash ti) = Some st" and "\<not> done_flag st"
    and "bt_downloaded_path st = Some p" and "finalrip_downloaded_path st = None"
    and "pipeline (Suc n) ev exts self ti s = (r, s')"
  shows "first_call (FR_check_task_exist (path_name p)) s s'"
proof -
  from assms have "bind_run (transcode_stage (Suc n) ev exts ti st p) (\<lambda>task_status.
        case finalrip_downloaded_path task_status of None \<Rightarrow> raise_error AssertionError
        | Some finalrip_path \<Rightarrow>
            bind_run (publish_stage ev self ti task_status finalrip_path) (\<lambda>task_status.
              if \<not> tg_uploaded task_status then raise_error AssertionError
              else update_task (hash ti) (task_status\<lparr>done_flag := True\<rparr>))) s = (r, s')"
    by (simp add: pipeline_def run_stages_def acquire_stage_def bind_run_def check_task_exist_def
        get_task_def ret_def)
  moreover have "keeps (first_call (FR_check_task_exist (path_name p)))
      (bind_run (transcode_stage (Suc n) ev exts ti st p) (\<lambda>task_status.
        case finalrip_downloaded_path task_status of None \<Rightarrow> raise_error AssertionError
        | Some finalrip_path \<Rightarrow>
            bind_run (publish_stage ev self ti task_status finalrip_path) (\<lambda>task_status.
              if \<not> tg_uploaded task_status then raise_error AssertionError
              else update_task (hash ti) (task_status\<lparr>done_flag := True\<rparr>))))"
    by (intro keeps_first_bind keeps_first_transcode_stage assms(4) keeps_later_after_transcode)
  ultimately show ?thesis by (rule keepsD [rotated])
qed

subsection \<open>The concrete runs\<close>

lemmas run_defs =
  pipeline_def run_stages_def acquire_stage_def transcode_stage_def publish_stage_def
  download_torrent_def encode_video_def send_and_mark_def caption_of_def checkpoint_def
  check_task_exist_def add_task_def get_task_def update_task_def
  bind_run_def ret_def raise_error_def perform_def ask_def fetch_def path_exists_def sleep_def
  upload_and_new_task_def TaskInfo_getattr_def
  path_name_def path_parent_def path_div_def Let_def

lemmas example_defs =
  example_task_def example_exts_def example_sender_def willing_env_def stalled_env_def down_env_def
  stored_def init_world_def TaskStatus_default_def status_acquired_def status_transcoded_def
  first_run_def second_run_def

lemma first_run_world:
  "run_all [first_run] init_world =
     \<lparr>store = [''abc123'' \<mapsto> status_acquired],
      calls = [QB_check_torrent_exist ''abc123'', QB_check_download_complete ''abc123'',
               QB_get_downloaded_path ''abc123'', FR_check_task_exist ''abc123.mkv'',
               FR_start_task ''abc123.mkv'' ''-c:v libx265'' ''import vapoursynth''],
      writes = [(''abc123'', TaskStatus_default), (''abc123'', status_acquired)]\<rparr>"
  by (simp add: run_defs example_defs)

lemma second_run_result:
  "pipeline (Suc 0) willing_env example_exts \<lparr>tg_channel_sender = None\<rparr> example_task
     (run_all [first_run] init_world) =
   (Raised AssertionError,
     \<lparr>store = [''abc123'' \<mapsto> status_transcoded],
      calls = calls (run_all [first_run] init_world) @
              [FR_check_task_exist ''abc123.mkv'',
               FR_start_task ''abc123.mkv'' ''-c:v libx265'' ''import vapoursynth'',
               FR_check_task_completed ''abc123.mkv'',
               FR_download_completed_task ''abc123.mkv'' ''/data/abc123.mkv-encoded.mkv'',
               MI_gen_file_name ''/data/abc123.mkv-encoded.mkv'' 3 ''Show'' ''Group'',
               Path_rename ''/data/abc123.mkv-encoded.mkv'' ''/data/Show-03.mkv''],
      writes = [(''abc123'', TaskStatus_default), (''abc123'', status_acquired),
                (''abc123'', status_transcoded)]\<rparr>)"
  unfolding first_run_world
  by (simp add: run_defs example_defs)

lemma both_runs_world:
  "run_all [first_run, second_run] init_world =
     \<lparr>store = [''abc123'' \<mapsto> status_transcoded],
      calls = [QB_check_torrent_exist ''abc123'', QB_check_download_complete ''abc123'',
               QB_get_downloaded_path ''abc123'', FR_check_task_exist ''abc123.mkv'',
               FR_start_task ''abc123.mkv'' ''-c:v libx265'' ''import vapoursynth'',
               FR_check_task_exist ''abc123.mkv'',
               FR_start_task ''abc123.mkv'' ''-c:v libx265'' ''import vapoursynth'',
               FR_check_task_completed ''abc123.mkv'',
               FR_download_completed_task ''abc123.mkv'' ''/data/abc123.mkv-encoded.mkv'',
               MI_gen_file_name ''/data/abc123.mkv-encoded.mkv'' 3 ''Show'' ''Group'',
               Path_rename ''/data/abc123.mkv-encoded.mkv'' ''/data/Show-03.mkv''],
      writes = [(''abc123'', TaskStatus_default), (''abc123'', status_acquired),
                (''abc123'', status_transcoded)]\<rparr>"
  by (simp add: run_defs example_defs)

lemma resumed_world:
  "run_all [second_run] (stored status_acquired) =
     \<lparr>store = [''abc123'' \<mapsto> status_transcoded],
      calls = [FR_check_task_exist ''abc123.mkv'',
               FR_start_task ''abc123.mkv'' ''-c:v libx265'' ''import vapoursynth'',
               FR_check_task_completed ''abc123.mkv'',
               FR_download_completed_task ''abc123.mkv'' ''/data/abc123.mkv-encoded.mkv'',
               MI_gen_file_name ''/data/abc123.mkv-encoded.mkv'' 3 ''Show'' ''Group'',
               Path_rename ''/data/abc123.mkv-encoded.mkv'' ''/data/Show-03.mkv''],
      writes = [(''abc123'', status_transcoded)]\<rparr>"
  by (simp add: run_defs example_defs)

lemma checkpoint_order_examples:
  "checkpoint_order True TaskStatus_default" "checkpoint_order True status_acquired"
  "checkpoint_order True status_transcoded"
  by (simp_all add: checkpoint_order_def example_defs)



section \<open>The claims\<close>

text \<open>
  C5. A task whose stored status has \<^verbatim>\<open>done\<close> set: the pipeline returns right after it has
  loaded the status. The world it returns is the world it was given, so it has made no
  call to any collaborator (no acquisition, transcode or publish operation) and has
  written nothing to the store. This holds for every polling budget and every behaviour
  of the collaborators.
\<close>

theorem pipeline_done_is_noop:
  assumes "store s (hash task_info) = Some st" and "done_flag st"
  shows "pipeline n ev exts self task_info s = (Returned (), s)"
  using assms
  by (simp add: pipeline_def bind_run_def check_task_exist_def get_task_def ret_def)

theorem pipeline_done_is_noop_witness:
  "store (stored status_done) (hash example_task) = Some status_done
   \<and> done_flag status_done
   \<and> pipeline 5 willing_env example_exts \<lparr>tg_channel_sender = Some example_sender\<rparr>
        example_task (stored status_done) = (Returned (), stored status_done)"
proof -
  have 1: "store (stored status_done) (hash example_task) = Some status_done"
    by (simp add: stored_def example_task_def)
  have 2: "done_flag status_done"
    by (simp add: status_done_def)
  from pipeline_done_is_noop [OF 1 2] 1 2 show ?thesis by simp
qed

text \<open>
  C1. A task whose stored status has the acquired and the transcoded path set,
  \<^verbatim>\<open>tg_uploaded\<close> false and \<^verbatim>\<open>done\<close> false, with a Telegram sender configured. The first two
  stages are skipped and the publish stage is entered, but the caption is evaluated
  before \<^verbatim>\<open>send_video\<close> is called, and its first field reads \<^verbatim>\<open>task_info.translation\<close>, a
  field that neither \<^verbatim>\<open>TaskInfo\<close> nor \<^verbatim>\<open>TorrentInfo\<close> declares. The pipeline therefore
  raises \<^verbatim>\<open>AttributeError\<close> in the world it was given: nothing is sent, and neither
  \<^verbatim>\<open>tg_uploaded\<close> nor \<^verbatim>\<open>done\<close> is written.
\<close>

theorem pipeline_publish_raises_AttributeError:
  assumes "store s (hash task_info) = Some st"
    and "bt_downloaded_path st = Some bt_path"
    and "finalrip_downloaded_path st = Some finalrip_path"
    and "\<not> tg_uploaded st" and "\<not> done_flag st"
    and "tg_channel_sender self = Some sender"
  shows "pipeline n ev exts self task_info s = (Raised AttributeError, s)"
  using assms
  by (simp add: pipeline_def bind_run_def check_task_exist_def get_task_def ret_def
      run_stages_def acquire_stage_def transcode_stage_def publish_stage_def caption_of_def
      TaskInfo_getattr_def raise_error_def)

theorem pipeline_publish_raises_AttributeError_witness:
  "store (stored status_transcoded) (hash example_task) = Some status_transcoded
   \<and> bt_downloaded_path status_transcoded = Some ''/data/abc123.mkv''
   \<and> finalrip_downloaded_path status_transcoded = Some ''/data/Show-03.mkv''
   \<and> \<not> tg_uploaded status_transcoded \<and> \<not> done_flag status_transcoded
   \<and> pipeline 5 willing_env example_exts \<lparr>tg_channel_sender = Some example_sender\<rparr>
        example_task (stored status_transcoded) = (Raised AttributeError, stored status_transcoded)"
proof -
  have 1: "store (stored status_transcoded) (hash example_task) = Some status_transcoded"
    by (simp add: stored_def example_task_def)
  have 2: "bt_downloaded_path status_transcoded = Some ''/data/abc123.mkv''"
    and 3: "finalrip_downloaded_path status_transcoded = Some ''/data/Show-03.mkv''"
    and 4: "\<not> tg_uploaded status_transcoded" and 5: "\<not> done_flag status_transcoded"
    by (simp_all add: status_transcoded_def)
  have 6: "tg_channel_sender \<lparr>tg_channel_sender = Some example_sender\<rparr> = Some example_sender"
    by simp
  from pipeline_publish_raises_AttributeError [OF 1 2 3 4 5 6] 1 2 3 4 5 show ?thesis
    by simp
qed

text \<open>
  C2. The same task when Telegram is disabled (no sender). The publish stage is skipped
  and leaves \<^verbatim>\<open>tg_uploaded\<close> false, so the assertion of line 193
  (\<^verbatim>\<open>assert task_status.tg_uploaded\<close>) fails: the pipeline raises \<^verbatim>\<open>AssertionError\<close> in the
  world it was given, and \<^verbatim>\<open>done\<close> is not written.
\<close>

theorem pipeline_publish_disabled_raises_AssertionError:
  assumes "store s (hash task_info) = Some st"
    and "bt_downloaded_path st = Some bt_path"
    and "finalrip_downloaded_path st = Some finalrip_path"
    and "\<not> tg_uploaded st" and "\<not> done_flag st"
    and "tg_channel_sender self = None"
  shows "pipeline n ev exts self task_info s = (Raised AssertionError, s)"
  using assms
  by (simp add: pipeline_def bind_run_def check_task_exist_def get_task_def ret_def
      run_stages_def acquire_stage_def transcode_stage_def publish_stage_def raise_error_def)

theorem pipeline_publish_disabled_raises_AssertionError_witness:
  "store (stored status_transcoded) (hash example_task) = Some status_transcoded
   \<and> bt_downloaded_path status_transcoded = Some ''/data/abc123.mkv''
   \<and> finalrip_downloaded_path status_transcoded = Some ''/data/Show-03.mkv''
   \<and> \<not> tg_uploaded status_transcoded \<and> \<not> done_flag status_transcoded
   \<and> pipeline 5 willing_env example_exts \<lparr>tg_channel_sender = None\<rparr>
        example_task (stored status_transcoded) = (Raised AssertionError, stored status_transcoded)"
proof -
  have 1: "store (stored status_transcoded) (hash example_task) = Some status_transcoded"
    by (simp add: stored_def example_task_def)
  have 2: "bt_downloaded_path status_transcoded = Some ''/data/abc123.mkv''"
    and 3: "finalrip_downloaded_path status_transcoded = Some ''/data/Show-03.mkv''"
    and 4: "\<not> tg_uploaded status_transcoded" and 5: "\<not> done_flag status_transcoded"
    by (simp_all add: status_transcoded_def)
  have 6: "tg_channel_sender \<lparr>tg_channel_sender = None\<rparr> = None"
    by simp
  from pipeline_publish_disabled_raises_AssertionError [OF 1 2 3 4 5 6] 1 2 3 4 5 show ?thesis
    by simp
qed




text \<open>
  C10, as the code has it. \<^verbatim>\<open>upload_and_new_task\<close> starts with the existence test of the
  path. When the test itself raises, that error is the error of the call (first part);
  when it answers that the file is missing the call raises \<^verbatim>\<open>FileNotFoundError\<close> (second
  part); when it answers that the file is there and the suffix of the path is not one
  of the video extensions the call raises \<^verbatim>\<open>ValueError\<close> (third part). In all three cases
  the only call made is the existence test, which is not a network operation: no
  presigned URL was requested, nothing was uploaded and no task was created.
\<close>

theorem upload_and_new_task_rejects_before_network:
  "(raises ev (calls s @ [FS_exists p]) = Some e \<longrightarrow>
      upload_and_new_task ev exts p s = (Raised e, s\<lparr>calls := calls s @ [FS_exists p]\<rparr>))
   \<and> (raises ev (calls s @ [FS_exists p]) = None \<and> \<not> truth ev (calls s @ [FS_exists p]) \<longrightarrow>
      upload_and_new_task ev exts p s = (Raised FileNotFoundError, s\<lparr>calls := calls s @ [FS_exists p]\<rparr>))
   \<and> (raises ev (calls s @ [FS_exists p]) = None \<and> truth ev (calls s @ [FS_exists p])
        \<and> path_suffix p \<notin> set exts \<longrightarrow>
      upload_and_new_task ev exts p s = (Raised ValueError, s\<lparr>calls := calls s @ [FS_exists p]\<rparr>))
   \<and> \<not> is_network_call (FS_exists p)"
  by (simp add: upload_and_new_task_def bind_run_def path_exists_def ask_def perform_def ret_def
      raise_error_def Let_def
      is_network_call_def is_acquisition_call_def is_transcode_call_def is_publish_call_def)

theorem upload_and_new_task_rejects_before_network_witness:
  "raises long_name_env (calls init_world @ [FS_exists long_name]) = Some OSError
   \<and> upload_and_new_task long_name_env example_exts long_name init_world =
        (Raised OSError, init_world\<lparr>calls := [FS_exists long_name]\<rparr>)
   \<and> raises absent_env (calls init_world @ [FS_exists ''/data/abc123.mkv'']) = None
   \<and> \<not> truth absent_env (calls init_world @ [FS_exists ''/data/abc123.mkv''])
   \<and> upload_and_new_task absent_env example_exts ''/data/abc123.mkv'' init_world =
        (Raised FileNotFoundError, init_world\<lparr>calls := [FS_exists ''/data/abc123.mkv'']\<rparr>)
   \<and> raises willing_env (calls init_world @ [FS_exists ''/data/notes.txt'']) = None
   \<and> truth willing_env (calls init_world @ [FS_exists ''/data/notes.txt''])
   \<and> path_suffix ''/data/notes.txt'' = ''.txt''
   \<and> ''.txt'' \<notin> set example_exts
   \<and> upload_and_new_task willing_env example_exts ''/data/notes.txt'' init_world =
        (Raised ValueError, init_world\<lparr>calls := [FS_exists ''/data/notes.txt'']\<rparr>)
   \<and> \<not> is_network_call (FS_exists ''/data/notes.txt'')"
proof -
  have l: "raises long_name_env (calls init_world @ [FS_exists long_name]) = Some OSError"
    by (simp add: long_name_env_def long_name_def init_world_def)
  have a0: "raises absent_env (calls init_world @ [FS_exists ''/data/abc123.mkv'']) = None"
    and a: "\<not> truth absent_env (calls init_world @ [FS_exists ''/data/abc123.mkv''])"
    by (simp_all add: absent_env_def)
  have b0: "raises willing_env (calls init_world @ [FS_exists ''/data/notes.txt'']) = None"
    and b: "truth willing_env (calls init_world @ [FS_exists ''/data/notes.txt''])"
    by (simp_all add: willing_env_def)
  have c: "path_suffix ''/data/notes.txt'' = ''.txt''"
    by (simp add: path_suffix_def path_name_def Let_def)
  have d: "''.txt'' \<notin> set example_exts"
    by (simp add: example_exts_def)
  from upload_and_new_task_rejects_before_network
         [where ev = long_name_env and s = init_world and p = long_name and exts = example_exts
            and e = OSError]
    upload_and_new_task_rejects_before_network
         [where ev = absent_env and s = init_world and p = "''/data/abc123.mkv''" and exts = example_exts]
    upload_and_new_task_rejects_before_network
         [where ev = willing_env and s = init_world and p = "''/data/notes.txt''" and exts = example_exts]
    l a0 a b0 b c d
  show ?thesis by (simp add: init_world_def)
qed

text \<open>
  C10 as it was stated fails on a path whose name is too long: no such file exists, the
  existence test raises \<^verbatim>\<open>OSError\<close>, and that error, not \<^verbatim>\<open>FileNotFoundError\<close>, is what the
  call raises (still before any network operation).
\<close>

theorem upload_and_new_task_long_name_counterexample:
  "\<not> truth long_name_env (calls init_world @ [FS_exists long_name])
   \<and> upload_and_new_task long_name_env example_exts long_name init_world =
        (Raised OSError, init_world\<lparr>calls := [FS_exists long_name]\<rparr>)
   \<and> fst (upload_and_new_task long_name_env example_exts long_name init_world)
        \<noteq> Raised FileNotFoundError"
  by (simp add: upload_and_new_task_def bind_run_def path_exists_def ask_def perform_def
      long_name_env_def long_name_def init_world_def)

text \<open>
  C3, as the code has it. In one pass of the driver that is not stopped, let an item's
  feed name a script or a param that the refreshed configuration does not have, and let
  every item before it build. Then \<^verbatim>\<open>build_task_info\<close> fails for that item with
  \<^verbatim>\<open>ValueError\<close>, before anything is submitted for it. \<^verbatim>\<open>Loop.start\<close> does not catch the
  error: it has submitted the items before that one, in order, and nothing else, and it
  ends with the error whatever passes would have followed, so there is no later refresh.
\<close>

theorem start_aborts_on_unknown_profile:
  assumes "\<not> stop_is_set t"
    and "tick_items t = before @ (cfg, item) # rest"
    and "list_all (builds (refreshed t)) before"
    and "cfg_script cfg \<notin> dom (scripts (refreshed t)) \<or> cfg_param cfg \<notin> dom (params (refreshed t))"
  shows "build_task_info item cfg (refreshed t) = Inl ValueError
         \<and> (\<exists>sub'. start (t # later) sub = (Raised ValueError, sub @ sub')
                    \<and> map fst sub' = map (\<lambda>x. hash (snd x)) before)"
proof -
  have fail: "build_task_info item cfg (refreshed t) = Inl ValueError"
    using assms(4) by (rule build_task_info_unknown)
  from submit_flat_builds [OF assms(3)] obtain sub'
    where pre: "submit_flat (refreshed t) before sub = (Inr (), sub @ sub')"
      and ids: "map fst sub' = map (\<lambda>x. hash (snd x)) before"
    by blast
  have "scan_feeds t (nyaa (refreshed t)) sub = submit_flat (refreshed t) (tick_items t) sub"
    by (simp add: scan_feeds_flat tick_items_def)
  also have "\<dots> = (Inl ValueError, sub @ sub')"
    using pre fail by (simp add: assms(2) submit_flat_append)
  finally have "start (t # later) sub = (Raised ValueError, sub @ sub')"
    using assms(1) by simp
  with fail ids show ?thesis by blast
qed

theorem start_aborts_on_unknown_profile_witness:
  "\<not> stop_is_set example_tick
   \<and> tick_items example_tick =
       [(feed_b, example_item ''Show B'' ''bbb222'')]
       @ (feed_a, example_item ''Show A'' ''aaa111'') # [(feed_c, example_item ''Show C'' ''ccc333'')]
   \<and> list_all (builds (refreshed example_tick)) [(feed_b, example_item ''Show B'' ''bbb222'')]
   \<and> cfg_script feed_a \<notin> dom (scripts (refreshed example_tick))
   \<and> build_task_info (example_item ''Show A'' ''aaa111'') feed_a (refreshed example_tick) = Inl ValueError
   \<and> fst (start [example_tick, example_tick] []) = Raised ValueError
   \<and> map fst (snd (start [example_tick, example_tick] [])) = [''bbb222'']"
proof -
  let ?before = "[(feed_b, example_item ''Show B'' ''bbb222'')]"
  let ?rest = "[(feed_c, example_item ''Show C'' ''ccc333'')]"
  have 1: "\<not> stop_is_set example_tick"
    by (simp add: example_tick_def)
  have 2: "tick_items example_tick = ?before @ (feed_a, example_item ''Show A'' ''aaa111'') # ?rest"
    by (simp add: tick_items_def example_tick_def example_rss_def feed_a_def feed_b_def feed_c_def)
  have 3: "list_all (builds (refreshed example_tick)) ?before"
    by (simp add: builds_def build_task_info_def example_tick_def example_rss_def feed_b_def)
  have 4: "cfg_script feed_a \<notin> dom (scripts (refreshed example_tick))"
    by (simp add: example_tick_def example_rss_def feed_a_def)
  then have 5: "cfg_script feed_a \<notin> dom (scripts (refreshed example_tick))
      \<or> cfg_param feed_a \<notin> dom (params (refreshed example_tick))"
    by simp
  from start_aborts_on_unknown_profile [OF 1 2 3 5, of "[example_tick]" "[]"]
  obtain sub' where "build_task_info (example_item ''Show A'' ''aaa111'') feed_a (refreshed example_tick) = Inl ValueError"
    and "start [example_tick, example_tick] [] = (Raised ValueError, sub')"
    and "map fst sub' = [''bbb222'']"
    by (auto simp: example_item_def)
  with 1 2 3 4 show ?thesis by simp
qed

text \<open>
  C3 as it was stated fails on two passes over these feeds: the driver ends with
  \<^verbatim>\<open>ValueError\<close> at the item of the second feed; the item of the third feed builds but is
  never submitted, and the second pass is never made (the first feed's item is
  submitted once, not twice).
\<close>

theorem start_continues_counterexample:
  "\<not> stop_is_set example_tick
   \<and> tick_items example_tick =
       [(feed_b, example_item ''Show B'' ''bbb222''),
        (feed_a, example_item ''Show A'' ''aaa111''),
        (feed_c, example_item ''Show C'' ''ccc333'')]
   \<and> \<not> builds example_rss (feed_a, example_item ''Show A'' ''aaa111'')
   \<and> builds example_rss (feed_c, example_item ''Show C'' ''ccc333'')
   \<and> fst (start [example_tick, example_tick] []) = Raised ValueError
   \<and> map fst (snd (start [example_tick, example_tick] [])) = [''bbb222'']"
  by (simp add: example_tick_def example_rss_def tick_items_def builds_def build_task_info_def
      feed_a_def feed_b_def feed_c_def example_item_def)

text \<open>
  C8, for the executor of the spec. A submission for an identity that has an execution
  running leaves the executor as it is (the submission is dropped, not queued); a
  submission for an identity that has none starts the work; and after any sequence of
  submissions and completions, starting from the idle executor, every identity has at
  most one execution running.
\<close>

theorem executor_one_execution_per_identity:
  "(running ex k \<noteq> [] \<longrightarrow> submit k work ex = ex)
   \<and> (running ex k = [] \<longrightarrow> running (submit k work ex) k = [work])
   \<and> length (running (executor_run evs []) k) \<le> 1"
proof (intro conjI impI)
  assume "running ex k \<noteq> []"
  then show "submit k work ex = ex" by (simp add: submit_def)
next
  assume "running ex k = []"
  then show "running (submit k work ex) k = [work]" by (simp add: running_submit)
next
  show "length (running (executor_run evs []) k) \<le> 1"
    by (rule executor_run_at_most_one) (simp add: running_def)
qed

theorem executor_one_execution_per_identity_witness:
  "running ([] :: nat executor) ''abc123'' = []
   \<and> running (submit ''abc123'' (1::nat) []) ''abc123'' = [1]
   \<and> running (submit ''abc123'' (1::nat) []) ''abc123'' \<noteq> []
   \<and> submit ''abc123'' 2 (submit ''abc123'' (1::nat) []) = submit ''abc123'' 1 []
   \<and> running (executor_run [Submit ''abc123'' (1::nat), Submit ''abc123'' 2, Submit ''def456'' 3] []) ''abc123'' = [1]
   \<and> length (running (executor_run [Submit ''abc123'' (1::nat), Submit ''abc123'' 2, Submit ''def456'' 3] []) ''abc123'') \<le> 1
   \<and> running (executor_run [Submit ''abc123'' (1::nat), Finish ''abc123'', Submit ''abc123'' 2] []) ''abc123'' = [2]"
proof -
  let ?evs = "[Submit ''abc123'' (1::nat), Submit ''abc123'' 2, Submit ''def456'' 3]"
  have a: "running ([] :: nat executor) ''abc123'' = []"
    by (simp add: running_def)
  from executor_one_execution_per_identity [of "[]" "''abc123''" "1::nat" ?evs]
  have "running ([] :: nat executor) ''abc123'' = [] \<longrightarrow> running (submit ''abc123'' (1::nat) []) ''abc123'' = [1]"
    and d: "length (running (executor_run ?evs []) ''abc123'') \<le> 1"
    by blast+
  with a have b: "running (submit ''abc123'' (1::nat) []) ''abc123'' = [1]"
    by blast
  then have b': "running (submit ''abc123'' (1::nat) []) ''abc123'' \<noteq> []"
    by simp
  from executor_one_execution_per_identity [of "submit ''abc123'' (1::nat) []" "''abc123''" 2 ?evs] b'
  have c: "submit ''abc123'' 2 (submit ''abc123'' (1::nat) []) = submit ''abc123'' 1 []"
    by blast
  have e: "running (executor_run ?evs []) ''abc123'' = [1]"
    and f: "running (executor_run [Submit ''abc123'' (1::nat), Finish ''abc123'', Submit ''abc123'' 2] []) ''abc123'' = [2]"
    by (simp_all add: running_def submit_def finish_def)
  from a b b' c d e f show ?thesis
    by (intro conjI)
qed

text \<open>
  C4. Start from a store whose every record satisfies the checkpoint order, and run the
  pipeline any number of times, for any tasks, budgets, configurations and behaviours
  of the collaborators. Then every record these runs have written to the store
  satisfies the checkpoint order, and so does every record of the store they leave.
  The order holds for either value of \<open>publishing_enabled\<close>: with \<open>True\<close> it says that
  \<^verbatim>\<open>done\<close> implies \<^verbatim>\<open>tg_uploaded\<close> outright. The empty store satisfies the hypothesis.
\<close>

theorem persisted_records_keep_checkpoint_order:
  assumes "store_ordered publishing_enabled s"
  shows "list_all (\<lambda>(k, st). checkpoint_order publishing_enabled st) (new_writes s (run_all jobs s))
         \<and> writes (run_all jobs s) = writes s @ new_writes s (run_all jobs s)
         \<and> store_ordered publishing_enabled (run_all jobs s)"
  using run_all_ordered_since [OF ordered_since_refl [OF assms]]
  by (simp add: ordered_since_def)

theorem persisted_records_keep_checkpoint_order_witness:
  "store_ordered True init_world
   \<and> new_writes init_world (run_all [first_run, second_run] init_world) =
       [(''abc123'', TaskStatus_default), (''abc123'', status_acquired), (''abc123'', status_transcoded)]
   \<and> list_all (\<lambda>(k, st). checkpoint_order True st)
        (new_writes init_world (run_all [first_run, second_run] init_world))
   \<and> store_ordered True (stored status_acquired)
   \<and> new_writes (stored status_acquired) (run_all [second_run] (stored status_acquired)) =
       [(''abc123'', status_transcoded)]
   \<and> list_all (\<lambda>(k, st). checkpoint_order True st)
        (new_writes (stored status_acquired) (run_all [second_run] (stored status_acquired)))
   \<and> store_ordered True (run_all [second_run] (stored status_acquired))"
proof -
  have a: "store_ordered True init_world"
    by (simp add: store_ordered_def init_world_def)
  have b: "store_ordered True (stored status_acquired)"
    using checkpoint_order_examples(2) by (simp add: store_ordered_def stored_def)
  have c: "new_writes init_world (run_all [first_run, second_run] init_world) =
      [(''abc123'', TaskStatus_default), (''abc123'', status_acquired), (''abc123'', status_transcoded)]"
    unfolding both_runs_world by (simp add: new_writes_def init_world_def)
  have d: "new_writes (stored status_acquired) (run_all [second_run] (stored status_acquired)) =
      [(''abc123'', status_transcoded)]"
    unfolding resumed_world by (simp add: new_writes_def stored_def)
  from persisted_records_keep_checkpoint_order [OF a, of "[first_run, second_run]"]
    persisted_records_keep_checkpoint_order [OF b, of "[second_run]"] a b c d
  show ?thesis by simp
qed

text \<open>
  C6. Take any world the pipeline has produced from the empty store, and a task whose
  record in it has the acquired path set and the transcoded path absent. Running the
  pipeline for that task (with a budget of at least one poll) makes no call to the
  acquisition client, and its first call is the transcode client's existence check for
  the file name of the stored acquired path: the acquisition stage is skipped and the
  transcode stage starts from the stored path. This holds whatever the outcome of the
  run.
\<close>

theorem resume_skips_acquisition:
  assumes "s = run_all jobs init_world"
    and "store s (hash task_info) = Some st"
    and "bt_downloaded_path st = Some p" and "finalrip_downloaded_path st = None"
    and "pipeline (Suc n) ev exts self task_info s = (r, s')"
  shows "\<exists>cs. calls s' = calls s @ FR_check_task_exist (path_name p) # cs
              \<and> list_all (\<lambda>c. \<not> is_acquisition_call c) (FR_check_task_exist (path_name p) # cs)"
proof -
  have "store_ordered True s"
    unfolding assms(1) by (rule reached_store_ordered)
  with assms(2) have "checkpoint_order True st"
    by (simp add: store_ordered_def)
  with assms(4) have "\<not> done_flag st"
    by (auto simp: checkpoint_order_def)
  from pipeline_resumes_at_transcode [OF assms(2) this assms(3,4,5)]
  show ?thesis
    by (auto simp: first_call_def is_acquisition_call_def)
qed

theorem resume_skips_acquisition_witness:
  "store (run_all [first_run] init_world) (hash example_task) = Some status_acquired
   \<and> bt_downloaded_path status_acquired = Some ''/data/abc123.mkv''
   \<and> finalrip_downloaded_path status_acquired = None
   \<and> path_name ''/data/abc123.mkv'' = ''abc123.mkv''
   \<and> new_calls (run_all [first_run] init_world)
        (snd (pipeline (Suc 0) willing_env example_exts \<lparr>tg_channel_sender = None\<rparr> example_task
               (run_all [first_run] init_world))) =
       [FR_check_task_exist ''abc123.mkv'',
        FR_start_task ''abc123.mkv'' ''-c:v libx265'' ''import vapoursynth'',
        FR_check_task_completed ''abc123.mkv'',
        FR_download_completed_task ''abc123.mkv'' ''/data/abc123.mkv-encoded.mkv'',
        MI_gen_file_name ''/data/abc123.mkv-encoded.mkv'' 3 ''Show'' ''Group'',
        Path_rename ''/data/abc123.mkv-encoded.mkv'' ''/data/Show-03.mkv'']
   \<and> list_all (\<lambda>c. \<not> is_acquisition_call c)
        (new_calls (run_all [first_run] init_world)
          (snd (pipeline (Suc 0) willing_env example_exts \<lparr>tg_channel_sender = None\<rparr> example_task
                 (run_all [first_run] init_world))))"
proof -
  let ?s = "run_all [first_run] init_world"
  let ?run = "pipeline (Suc 0) willing_env example_exts \<lparr>tg_channel_sender = None\<rparr> example_task ?s"
  have 1: "store ?s (hash example_task) = Some status_acquired"
    unfolding first_run_world by (simp add: example_task_def)
  have 2: "bt_downloaded_path status_acquired = Some ''/data/abc123.mkv''"
    and 3: "finalrip_downloaded_path status_acquired = None"
    by (simp_all add: status_acquired_def)
  have 4: "path_name ''/data/abc123.mkv'' = ''abc123.mkv''"
    by (simp add: path_name_def)
  have 5: "?run = (fst ?run, snd ?run)"
    by simp
  from resume_skips_acquisition [OF refl 1 2 3 5] obtain cs
    where c: "calls (snd ?run) = calls ?s @ FR_check_task_exist (path_name ''/data/abc123.mkv'') # cs"
      and l: "list_all (\<lambda>c. \<not> is_acquisition_call c)
                (FR_check_task_exist (path_name ''/data/abc123.mkv'') # cs)"
    by blast
  from c have n: "new_calls ?s (snd ?run) = FR_check_task_exist (path_name ''/data/abc123.mkv'') # cs"
    by (simp add: new_calls_def)
  have e: "new_calls ?s (snd ?run) =
       [FR_check_task_exist ''abc123.mkv'',
        FR_start_task ''abc123.mkv'' ''-c:v libx265'' ''import vapoursynth'',
        FR_check_task_completed ''abc123.mkv'',
        FR_download_completed_task ''abc123.mkv'' ''/data/abc123.mkv-encoded.mkv'',
        MI_gen_file_name ''/data/abc123.mkv-encoded.mkv'' 3 ''Show'' ''Group'',
        Path_rename ''/data/abc123.mkv-encoded.mkv'' ''/data/Show-03.mkv'']"
    unfolding second_run_result by (simp add: new_calls_def)
  from l n have "list_all (\<lambda>c. \<not> is_acquisition_call c) (new_calls ?s (snd ?run))"
    by simp
  with 1 2 3 4 e show ?thesis
    by (intro conjI)
qed



end
